theory Spec2Isabelle
  imports Main "HOL-Library.Word"
begin

unbundle bit_operations_syntax

section \<open>JavaScript numbers and typed arrays\<close>

text \<open>
  The module \<open>mod.ts\<close> computes with JavaScript numbers. Every number that occurs is an
  integer of magnitude far below \<open>2 ^ 53\<close>, so \<open>+\<close> and \<open>-\<close> are exact and a number is
  modelled as an \<open>int\<close>. The bitwise operators convert their operands to 32 bits first
  (\<open>ToInt32\<close>, \<open>ToUint32\<close>) and return a signed 32-bit result, except \<open>>>>\<close>, whose
  result is unsigned. A shift count is taken modulo 32.
\<close>

type_synonym byte = "8 word"

definition js_and :: "int \<Rightarrow> int \<Rightarrow> int" where
  "js_and x y = sint ((word_of_int x :: 32 word) AND word_of_int y)"

definition js_or :: "int \<Rightarrow> int \<Rightarrow> int" where
  "js_or x y = sint ((word_of_int x :: 32 word) OR word_of_int y)"

definition js_xor :: "int \<Rightarrow> int \<Rightarrow> int" where
  "js_xor x y = sint ((word_of_int x :: 32 word) XOR word_of_int y)"

definition js_not :: "int \<Rightarrow> int" where
  "js_not x = sint (NOT (word_of_int x :: 32 word))"

definition js_shl :: "int \<Rightarrow> int \<Rightarrow> int" where
  "js_shl x n = sint (push_bit (nat (n mod 32)) (word_of_int x :: 32 word))"

definition js_ushr :: "int \<Rightarrow> int \<Rightarrow> int" where
  "js_ushr x n = uint (drop_bit (nat (n mod 32)) (word_of_int x :: 32 word))"

text \<open>
  A \<open>Uint8Array\<close> is a list of bytes. Reading an index outside the array gives
  \<open>undefined\<close>, which every bitwise operator converts to 0; the only reads of the module
  are operands of \<open>|\<close> and \<open><<\<close>, so \<open>ta_get\<close> returns 0 there. A store converts the number
  to a byte (modulo 256) and is ignored outside the array. \<open>set\<close> raises a
  \<open>RangeError\<close> when the source does not fit at the offset, and so does the constructor
  for a negative length. \<open>slice\<close> counts negative positions from the end and clamps.
\<close>

datatype error = RangeError

definition ta_get :: "byte list \<Rightarrow> int \<Rightarrow> int" where
  "ta_get xs i = (if 0 \<le> i \<and> i < int (length xs) then uint (xs ! nat i) else 0)"

definition ta_put :: "byte list \<Rightarrow> int \<Rightarrow> int \<Rightarrow> byte list" where
  "ta_put xs i v =
     (if 0 \<le> i \<and> i < int (length xs) then xs[nat i := word_of_int v] else xs)"

definition ta_new :: "int \<Rightarrow> error + byte list" where
  "ta_new n = (if n < 0 then Inl RangeError else Inr (replicate (nat n) 0))"

definition ta_set :: "byte list \<Rightarrow> byte list \<Rightarrow> int \<Rightarrow> error + byte list" where
  "ta_set target src offset =
     (if offset < 0 \<or> int (length target) < int (length src) + offset then Inl RangeError
      else Inr (take (nat offset) target @ src @ drop (nat offset + length src) target))"

definition ta_fill :: "byte list \<Rightarrow> int \<Rightarrow> byte list" where
  "ta_fill xs v = replicate (length xs) (word_of_int v)"

definition rel_index :: "nat \<Rightarrow> int \<Rightarrow> nat" where
  "rel_index len k = (if k < 0 then nat (max (int len + k) 0) else min (nat k) len)"

definition ta_slice :: "byte list \<Rightarrow> int \<Rightarrow> int \<Rightarrow> byte list" where
  "ta_slice xs start end =
     (let k = rel_index (length xs) start; final = rel_index (length xs) end
      in take (final - k) (drop k xs))"

definition ta_slice_from :: "byte list \<Rightarrow> int \<Rightarrow> byte list" where
  "ta_slice_from xs start = drop (rel_index (length xs) start) xs"

section \<open>The block compressor\<close>

definition BLOCK_SIZE :: int where
  "BLOCK_SIZE = 64"

definition rol32 :: "int \<Rightarrow> int \<Rightarrow> int" where
  "rol32 x n = js_or (js_shl x n) (js_ushr x (32 - n))"

definition blk :: "byte list \<Rightarrow> int \<Rightarrow> int" where
  "blk block i =
     js_or (js_or (js_or (ta_get block i) (js_shl (ta_get block (i + 1)) 8))
                  (js_shl (ta_get block (i + 2)) 16))
           (js_shl (ta_get block (i + 3)) 24)"

type_synonym State = "int \<times> int \<times> int \<times> int"

text \<open>
  \<open>hash\<close>, line by line: the sixteen message words, the 64 operations of the four
  rounds, and the sum with the incoming state, made unsigned by \<open>>>> 0\<close>.
\<close>

definition hash :: "State \<Rightarrow> byte list \<Rightarrow> State" where
  "hash state block =
     (case state of (s0, s1, s2, s3) \<Rightarrow>
       (let a = s0; b = s1; c = s2; d = s3;
         x0 = blk block 0;
         x1 = blk block 4;
         x2 = blk block 8;
         x3 = blk block 12;
         x4 = blk block 16;
         x5 = blk block 20;
         x6 = blk block 24;
         x7 = blk block 28;
         x8 = blk block 32;
         x9 = blk block 36;
         xa = blk block 40;
         xb = blk block 44;
         xc = blk block 48;
         xd = blk block 52;
         xe = blk block 56;
         xf = blk block 60;
         a = b + rol32 (js_xor (js_and (js_xor c d) b) d + a + x0 + 0xd76aa478) 7;
         d = a + rol32 (js_xor (js_and (js_xor b c) a) c + d + x1 + 0xe8c7b756) 12;
         c = d + rol32 (js_xor (js_and (js_xor a b) d) b + c + x2 + 0x242070db) 17;
         b = c + rol32 (js_xor (js_and (js_xor d a) c) a + b + x3 + 0xc1bdceee) 22;
         a = b + rol32 (js_xor (js_and (js_xor c d) b) d + a + x4 + 0xf57c0faf) 7;
         d = a + rol32 (js_xor (js_and (js_xor b c) a) c + d + x5 + 0x4787c62a) 12;
         c = d + rol32 (js_xor (js_and (js_xor a b) d) b + c + x6 + 0xa8304613) 17;
         b = c + rol32 (js_xor (js_and (js_xor d a) c) a + b + x7 + 0xfd469501) 22;
         a = b + rol32 (js_xor (js_and (js_xor c d) b) d + a + x8 + 0x698098d8) 7;
         d = a + rol32 (js_xor (js_and (js_xor b c) a) c + d + x9 + 0x8b44f7af) 12;
         c = d + rol32 (js_xor (js_and (js_xor a b) d) b + c + xa + 0xffff5bb1) 17;
         b = c + rol32 (js_xor (js_and (js_xor d a) c) a + b + xb + 0x895cd7be) 22;
         a = b + rol32 (js_xor (js_and (js_xor c d) b) d + a + xc + 0x6b901122) 7;
         d = a + rol32 (js_xor (js_and (js_xor b c) a) c + d + xd + 0xfd987193) 12;
         c = d + rol32 (js_xor (js_and (js_xor a b) d) b + c + xe + 0xa679438e) 17;
         b = c + rol32 (js_xor (js_and (js_xor d a) c) a + b + xf + 0x49b40821) 22;
         a = b + rol32 (js_xor (js_and (js_xor b c) d) c + a + x1 + 0xf61e2562) 5;
         d = a + rol32 (js_xor (js_and (js_xor a b) c) b + d + x6 + 0xc040b340) 9;
         c = d + rol32 (js_xor (js_and (js_xor d a) b) a + c + xb + 0x265e5a51) 14;
         b = c + rol32 (js_xor (js_and (js_xor c d) a) d + b + x0 + 0xe9b6c7aa) 20;
         a = b + rol32 (js_xor (js_and (js_xor b c) d) c + a + x5 + 0xd62f105d) 5;
         d = a + rol32 (js_xor (js_and (js_xor a b) c) b + d + xa + 0x02441453) 9;
         c = d + rol32 (js_xor (js_and (js_xor d a) b) a + c + xf + 0xd8a1e681) 14;
         b = c + rol32 (js_xor (js_and (js_xor c d) a) d + b + x4 + 0xe7d3fbc8) 20;
         a = b + rol32 (js_xor (js_and (js_xor b c) d) c + a + x9 + 0x21e1cde6) 5;
         d = a + rol32 (js_xor (js_and (js_xor a b) c) b + d + xe + 0xc33707d6) 9;
         c = d + rol32 (js_xor (js_and (js_xor d a) b) a + c + x3 + 0xf4d50d87) 14;
         b = c + rol32 (js_xor (js_and (js_xor c d) a) d + b + x8 + 0x455a14ed) 20;
         a = b + rol32 (js_xor (js_and (js_xor b c) d) c + a + xd + 0xa9e3e905) 5;
         d = a + rol32 (js_xor (js_and (js_xor a b) c) b + d + x2 + 0xfcefa3f8) 9;
         c = d + rol32 (js_xor (js_and (js_xor d a) b) a + c + x7 + 0x676f02d9) 14;
         b = c + rol32 (js_xor (js_and (js_xor c d) a) d + b + xc + 0x8d2a4c8a) 20;
         a = b + rol32 (js_xor (js_xor b c) d + a + x5 + 0xfffa3942) 4;
         d = a + rol32 (js_xor (js_xor a b) c + d + x8 + 0x8771f681) 11;
         c = d + rol32 (js_xor (js_xor d a) b + c + xb + 0x6d9d6122) 16;
         b = c + rol32 (js_xor (js_xor c d) a + b + xe + 0xfde5380c) 23;
         a = b + rol32 (js_xor (js_xor b c) d + a + x1 + 0xa4beea44) 4;
         d = a + rol32 (js_xor (js_xor a b) c + d + x4 + 0x4bdecfa9) 11;
         c = d + rol32 (js_xor (js_xor d a) b + c + x7 + 0xf6bb4b60) 16;
         b = c + rol32 (js_xor (js_xor c d) a + b + xa + 0xbebfbc70) 23;
         a = b + rol32 (js_xor (js_xor b c) d + a + xd + 0x289b7ec6) 4;
         d = a + rol32 (js_xor (js_xor a b) c + d + x0 + 0xeaa127fa) 11;
         c = d + rol32 (js_xor (js_xor d a) b + c + x3 + 0xd4ef3085) 16;
         b = c + rol32 (js_xor (js_xor c d) a + b + x6 + 0x04881d05) 23;
         a = b + rol32 (js_xor (js_xor b c) d + a + x9 + 0xd9d4d039) 4;
         d = a + rol32 (js_xor (js_xor a b) c + d + xc + 0xe6db99e5) 11;
         c = d + rol32 (js_xor (js_xor d a) b + c + xf + 0x1fa27cf8) 16;
         b = c + rol32 (js_xor (js_xor c d) a + b + x2 + 0xc4ac5665) 23;
         a = b + rol32 (js_xor c (js_or b (js_not d)) + a + x0 + 0xf4292244) 6;
         d = a + rol32 (js_xor b (js_or a (js_not c)) + d + x7 + 0x432aff97) 10;
         c = d + rol32 (js_xor a (js_or d (js_not b)) + c + xe + 0xab9423a7) 15;
         b = c + rol32 (js_xor d (js_or c (js_not a)) + b + x5 + 0xfc93a039) 21;
         a = b + rol32 (js_xor c (js_or b (js_not d)) + a + xc + 0x655b59c3) 6;
         d = a + rol32 (js_xor b (js_or a (js_not c)) + d + x3 + 0x8f0ccc92) 10;
         c = d + rol32 (js_xor a (js_or d (js_not b)) + c + xa + 0xffeff47d) 15;
         b = c + rol32 (js_xor d (js_or c (js_not a)) + b + x1 + 0x85845dd1) 21;
         a = b + rol32 (js_xor c (js_or b (js_not d)) + a + x8 + 0x6fa87e4f) 6;
         d = a + rol32 (js_xor b (js_or a (js_not c)) + d + xf + 0xfe2ce6e0) 10;
         c = d + rol32 (js_xor a (js_or d (js_not b)) + c + x6 + 0xa3014314) 15;
         b = c + rol32 (js_xor d (js_or c (js_not a)) + b + xd + 0x4e0811a1) 21;
         a = b + rol32 (js_xor c (js_or b (js_not d)) + a + x4 + 0xf7537e82) 6;
         d = a + rol32 (js_xor b (js_or a (js_not c)) + d + xb + 0xbd3af235) 10;
         c = d + rol32 (js_xor a (js_or d (js_not b)) + c + x2 + 0x2ad7d2bb) 15;
         b = c + rol32 (js_xor d (js_or c (js_not a)) + b + x9 + 0xeb86d391) 21
       in (js_ushr (s0 + a) 0, js_ushr (s1 + b) 0, js_ushr (s2 + c) 0, js_ushr (s3 + d) 0)))"

section \<open>The update pipeline\<close>

type_synonym Context = "State \<times> byte list \<times> int \<times> int \<times> int"

definition addLength :: "int \<Rightarrow> int \<Rightarrow> int \<Rightarrow> int \<times> int" where
  "addLength n0 n1 len =
     (let n0 = n0 + len;
          n1 = (if n0 > 0xffffffff then n1 + 1 else n1)
      in (js_ushr n0 0, n1))"

text \<open>
  The \<open>while\<close> loop of \<open>update\<close> (lines 216 to 220): it returns the state and the index
  \<open>i\<close> it stops at. The compressor is a parameter \<open>h\<close> of the loop and of
  \<open>update_with\<close>, so that a statement can say whether a result depends on it;
  \<open>update\<close> is the instance with \<open>hash\<close>, as in the source.
\<close>

function update_loop ::
  "(State \<Rightarrow> byte list \<Rightarrow> State) \<Rightarrow> byte list \<Rightarrow> State \<Rightarrow> int \<Rightarrow> State \<times> int" where
  "update_loop h msg state i =
     (if i + BLOCK_SIZE \<le> int (length msg)
      then update_loop h msg (h state (ta_slice msg i (i + BLOCK_SIZE))) (i + BLOCK_SIZE)
      else (state, i))"
  by pat_completeness auto
termination
  by (relation "measure (\<lambda>(h, msg, state, i). nat (int (length msg) - i))")
     (auto simp: BLOCK_SIZE_def)

definition update_with ::
  "(State \<Rightarrow> byte list \<Rightarrow> State) \<Rightarrow>
   State \<Rightarrow> byte list \<Rightarrow> int \<Rightarrow> int \<Rightarrow> int \<Rightarrow> byte list \<Rightarrow> error + Context" where
  "update_with h state block pos n0 n1 msg =
     (let free = BLOCK_SIZE - pos in
      if int (length msg) < free then
        (case ta_set block msg pos of
           Inl e \<Rightarrow> Inl e
         | Inr block \<Rightarrow>
             (let pos = pos + int (length msg);
                  (n0, n1) = addLength n0 n1 (int (length msg))
              in Inr (state, block, pos, n0, n1)))
      else
        (case ta_set block (ta_slice msg 0 free) pos of
           Inl e \<Rightarrow> Inl e
         | Inr block \<Rightarrow>
             (let state = h state block;
                  (state, i) = update_loop h msg state free
              in case ta_set (ta_fill block 0) (ta_slice_from msg i) 0 of
                   Inl e \<Rightarrow> Inl e
                 | Inr block \<Rightarrow>
                     (let pos = int (length msg) - i;
                          (n0, n1) = addLength n0 n1 (int (length msg))
                      in Inr (state, block, pos, n0, n1)))))"

definition update ::
  "State \<Rightarrow> byte list \<Rightarrow> int \<Rightarrow> int \<Rightarrow> int \<Rightarrow> byte list \<Rightarrow> error + Context" where
  "update = update_with hash"

text \<open>Feeding a sequence of chunks, one call of \<open>update\<close> per chunk.\<close>

fun update_all :: "Context \<Rightarrow> byte list list \<Rightarrow> error + Context" where
  "update_all ctx [] = Inr ctx"
| "update_all (state, block, pos, n0, n1) (m # ms) =
     (case update state block pos n0 n1 m of
        Inl e \<Rightarrow> Inl e
      | Inr ctx \<Rightarrow> update_all ctx ms)"

section \<open>Finalization and the digest\<close>

definition init_state :: State where
  "init_state = (0x67452301, 0xefcdab89, 0x98badcfe, 0x10325476)"

text \<open>Lines 51 and 52 of \<open>md5\<close>: the length of the padding buffer.\<close>

definition pad_length :: "int \<Rightarrow> int" where
  "pad_length pos =
     (let padLen = BLOCK_SIZE - pos
      in if padLen < 9 then padLen + BLOCK_SIZE else padLen)"

text \<open>
  Lines 54 to 66: the padding buffer, with the marker byte and the shifted counter pair
  stored in its last eight bytes. The pair is returned too, since the source passes it to
  the last \<open>update\<close>.
\<close>

definition md5_pad :: "int \<Rightarrow> int \<Rightarrow> int \<Rightarrow> error + (byte list \<times> int \<times> int)" where
  "md5_pad pos n0 n1 =
     (case ta_new (pad_length pos) of
        Inl e \<Rightarrow> Inl e
      | Inr pad \<Rightarrow>
          (let pad = ta_put pad 0 0x80;
               (n0, n1) = (js_shl n0 3, js_or (js_shl n1 3) (js_ushr n0 29));
               pad = ta_put pad (int (length pad) - 8) (js_and n0 0xff);
               pad = ta_put pad (int (length pad) - 7) (js_and (js_ushr n0 8) 0xff);
               pad = ta_put pad (int (length pad) - 6) (js_and (js_ushr n0 16) 0xff);
               pad = ta_put pad (int (length pad) - 5) (js_and (js_ushr n0 24) 0xff);
               pad = ta_put pad (int (length pad) - 4) (js_and n1 0xff);
               pad = ta_put pad (int (length pad) - 3) (js_and (js_ushr n1 8) 0xff);
               pad = ta_put pad (int (length pad) - 2) (js_and (js_ushr n1 16) 0xff);
               pad = ta_put pad (int (length pad) - 1) (js_and (js_ushr n1 24) 0xff)
           in Inr (pad, n0, n1)))"

text \<open>
  \<open>DataView.setUint32\<close> with \<open>littleEndian = true\<close>: the value is converted to an
  unsigned 32-bit integer and its four bytes are stored lowest first; it raises a
  \<open>RangeError\<close> when the four bytes do not lie inside the buffer.
\<close>

definition setUint32 :: "byte list \<Rightarrow> int \<Rightarrow> int \<Rightarrow> error + byte list" where
  "setUint32 buf offset v =
     (if offset < 0 \<or> int (length buf) < offset + 4 then Inl RangeError
      else
        (let u = js_ushr v 0
         in Inr (take (nat offset) buf
                 @ [word_of_int u, word_of_int (u div 2 ^ 8),
                    word_of_int (u div 2 ^ 16), word_of_int (u div 2 ^ 24)]
                 @ drop (nat offset + 4) buf)))"

text \<open>Lines 77 to 84: the state written into a fresh 16-byte buffer.\<close>

definition digest :: "State \<Rightarrow> error + byte list" where
  "digest state =
     (case state of (s0, s1, s2, s3) \<Rightarrow>
       (case ta_new 16 of
          Inl e \<Rightarrow> Inl e
        | Inr buf \<Rightarrow>
       (case setUint32 buf 0 s0 of
          Inl e \<Rightarrow> Inl e
        | Inr buf \<Rightarrow>
       (case setUint32 buf 4 s1 of
          Inl e \<Rightarrow> Inl e
        | Inr buf \<Rightarrow>
       (case setUint32 buf 8 s2 of
          Inl e \<Rightarrow> Inl e
        | Inr buf \<Rightarrow> setUint32 buf 12 s3)))))"

text \<open>Lines 51 to 84: everything \<open>md5\<close> does after the input has been fed.\<close>

definition md5_final :: "Context \<Rightarrow> error + byte list" where
  "md5_final ctx =
     (case ctx of (state, block, pos, n0, n1) \<Rightarrow>
       (case md5_pad pos n0 n1 of
          Inl e \<Rightarrow> Inl e
        | Inr (pad, n0, n1) \<Rightarrow>
            (case update state block pos n0 n1 pad of
               Inl e \<Rightarrow> Inl e
             | Inr (state, block, pos, n0, n1) \<Rightarrow> digest state)))"

text \<open>
  \<open>md5\<close> on the bytes \<open>msg\<close> of its argument (a string argument is encoded as UTF-8
  first, a view is read over its own byte range).
\<close>

definition md5 :: "byte list \<Rightarrow> error + byte list" where
  "md5 msg =
     (case ta_new BLOCK_SIZE of
        Inl e \<Rightarrow> Inl e
      | Inr block \<Rightarrow>
          (case update init_state block 0 0 0 msg of
             Inl e \<Rightarrow> Inl e
           | Inr ctx \<Rightarrow> md5_final ctx))"

text \<open>
  The tests compare digests through \<open>encodeHex\<close> of the standard library: two lower-case
  hexadecimal digits per byte. The bytes of an ASCII string are its character codes.
\<close>

definition hex_digit :: "nat \<Rightarrow> char" where
  "hex_digit n = ''0123456789abcdef'' ! (n mod 16)"

definition encodeHex :: "byte list \<Rightarrow> string" where
  "encodeHex bs = concat (map (\<lambda>b. [hex_digit (unat b div 16), hex_digit (unat b mod 16)]) bs)"

definition bytes_of :: "string \<Rightarrow> byte list" where
  "bytes_of s = map (\<lambda>c. word_of_nat (of_char c)) s"

section \<open>Notions used in the statements\<close>

text \<open>An unsigned 32-bit value, and a state of four of them.\<close>

definition is_u32 :: "int \<Rightarrow> bool" where
  "is_u32 x = (0 \<le> x \<and> x < 2 ^ 32)"

fun state_u32 :: "State \<Rightarrow> bool" where
  "state_u32 (a, b, c, d) = (is_u32 a \<and> is_u32 b \<and> is_u32 c \<and> is_u32 d)"

text \<open>The four round functions as the specification writes them, on 32-bit words.\<close>

definition F :: "32 word \<Rightarrow> 32 word \<Rightarrow> 32 word \<Rightarrow> 32 word" where
  "F b c d = (b AND c) OR (NOT b AND d)"

definition G :: "32 word \<Rightarrow> 32 word \<Rightarrow> 32 word \<Rightarrow> 32 word" where
  "G b c d = (b AND d) OR (c AND NOT d)"

definition H :: "32 word \<Rightarrow> 32 word \<Rightarrow> 32 word \<Rightarrow> 32 word" where
  "H b c d = b XOR c XOR d"

definition I :: "32 word \<Rightarrow> 32 word \<Rightarrow> 32 word \<Rightarrow> 32 word" where
  "I b c d = c XOR (b OR NOT d)"

text \<open>
  What buffering amounts to: the pending bytes are consumed in complete 64-byte blocks,
  in order, and the bytes that do not fill a block remain.
\<close>

function blocks_fold ::
  "(State \<Rightarrow> byte list \<Rightarrow> State) \<Rightarrow> State \<Rightarrow> byte list \<Rightarrow> State \<times> byte list" where
  "blocks_fold h s xs =
     (if 64 \<le> length xs then blocks_fold h (h s (take 64 xs)) (drop 64 xs) else (s, xs))"
  by pat_completeness auto
termination
  by (relation "measure (\<lambda>(h, s, xs). length xs)") auto


text \<open>The number that a list of bytes encodes, lowest byte first.\<close>

fun le_decode :: "byte list \<Rightarrow> int" where
  "le_decode [] = 0"
| "le_decode (b # bs) = uint b + 256 * le_decode bs"

text \<open>
  The padding buffer written out: the marker, \<open>k\<close> zero bytes, and the bytes of the two
  shifted counter words. \<open>put_last\<close> is one store relative to the end of the buffer.
\<close>

definition pad_bytes :: "nat \<Rightarrow> int \<Rightarrow> int \<Rightarrow> byte list" where
  "pad_bytes k m0 m1 =
     0x80 # replicate k 0 @
     [word_of_int (js_and m0 0xff), word_of_int (js_and (js_ushr m0 8) 0xff),
      word_of_int (js_and (js_ushr m0 16) 0xff), word_of_int (js_and (js_ushr m0 24) 0xff),
      word_of_int (js_and m1 0xff), word_of_int (js_and (js_ushr m1 8) 0xff),
      word_of_int (js_and (js_ushr m1 16) 0xff), word_of_int (js_and (js_ushr m1 24) 0xff)]"

definition padding :: "int \<Rightarrow> int \<Rightarrow> int \<Rightarrow> byte list" where
  "padding pos n0 n1 =
     pad_bytes (nat (pad_length pos) - 9) (js_shl n0 3) (js_or (js_shl n1 3) (js_ushr n0 29))"

definition put_last :: "byte list \<Rightarrow> int \<Rightarrow> int \<Rightarrow> byte list" where
  "put_last pad j v = ta_put pad (int (length pad) - j) v"

text \<open>
  The expression that the tests compare with the expected string:
  \<open>encodeHex(md5(input))\<close>, on the bytes of the input.
\<close>

definition md5_hex :: "byte list \<Rightarrow> error + string" where
  "md5_hex msg = (case md5 msg of Inl e \<Rightarrow> Inl e | Inr d \<Rightarrow> Inr (encodeHex d))"

text \<open>
  The block compressor as the specification describes it, on 32-bit words: the block
  is read as sixteen little-endian words, each of the 64 operations adds to one state
  word the rotation of the sum of a round function of the other three, a message word and
  a constant, all modulo \<open>2^32\<close>, and the incoming state is added at the end. The order
  of the operations, the message words, the constants and the rotation amounts are those
  of the lines of \<open>hash\<close>.
\<close>

type_synonym wstate = "32 word \<times> 32 word \<times> 32 word \<times> 32 word"

definition byte_at :: "byte list \<Rightarrow> nat \<Rightarrow> byte" where
  "byte_at block i = (if i < length block then block ! i else 0)"

definition word_le :: "byte list \<Rightarrow> nat \<Rightarrow> 32 word" where
  "word_le block i =
     ucast (byte_at block i) OR push_bit 8 (ucast (byte_at block (i + 1)))
       OR push_bit 16 (ucast (byte_at block (i + 2)))
       OR push_bit 24 (ucast (byte_at block (i + 3)))"

definition compress_spec :: "wstate \<Rightarrow> byte list \<Rightarrow> wstate" where
  "compress_spec state block =
     (case state of (s0, s1, s2, s3) \<Rightarrow>
       (let a = s0; b = s1; c = s2; d = s3;
         x0 = word_le block 0;
         x1 = word_le block 4;
         x2 = word_le block 8;
         x3 = word_le block 12;
         x4 = word_le block 16;
         x5 = word_le block 20;
         x6 = word_le block 24;
         x7 = word_le block 28;
         x8 = word_le block 32;
         x9 = word_le block 36;
         xa = word_le block 40;
         xb = word_le block 44;
         xc = word_le block 48;
         xd = word_le block 52;
         xe = word_le block 56;
         xf = word_le block 60;
         a = b + word_rotl 7 (F b c d + a + x0 + 0xd76aa478);
         d = a + word_rotl 12 (F a b c + d + x1 + 0xe8c7b756);
         c = d + word_rotl 17 (F d a b + c + x2 + 0x242070db);
         b = c + word_rotl 22 (F c d a + b + x3 + 0xc1bdceee);
         a = b + word_rotl 7 (F b c d + a + x4 + 0xf57c0faf);
         d = a + word_rotl 12 (F a b c + d + x5 + 0x4787c62a);
         c = d + word_rotl 17 (F d a b + c + x6 + 0xa8304613);
         b = c + word_rotl 22 (F c d a + b + x7 + 0xfd469501);
         a = b + word_rotl 7 (F b c d + a + x8 + 0x698098d8);
         d = a + word_rotl 12 (F a b c + d + x9 + 0x8b44f7af);
         c = d + word_rotl 17 (F d a b + c + xa + 0xffff5bb1);
         b = c + word_rotl 22 (F c d a + b + xb + 0x895cd7be);
         a = b + word_rotl 7 (F b c d + a + xc + 0x6b901122);
         d = a + word_rotl 12 (F a b c + d + xd + 0xfd987193);
         c = d + word_rotl 17 (F d a b + c + xe + 0xa679438e);
         b = c + word_rotl 22 (F c d a + b + xf + 0x49b40821);
         a = b + word_rotl 5 (G b c d + a + x1 + 0xf61e2562);
         d = a + word_rotl 9 (G a b c + d + x6 + 0xc040b340);
         c = d + word_rotl 14 (G d a b + c + xb + 0x265e5a51);
         b = c + word_rotl 20 (G c d a + b + x0 + 0xe9b6c7aa);
         a = b + word_rotl 5 (G b c d + a + x5 + 0xd62f105d);
         d = a + word_rotl 9 (G a b c + d + xa + 0x02441453);
         c = d + word_rotl 14 (G d a b + c + xf + 0xd8a1e681);
         b = c + word_rotl 20 (G c d a + b + x4 + 0xe7d3fbc8);
         a = b + word_rotl 5 (G b c d + a + x9 + 0x21e1cde6);
         d = a + word_rotl 9 (G a b c + d + xe + 0xc33707d6);
         c = d + word_rotl 14 (G d a b + c + x3 + 0xf4d50d87);
         b = c + word_rotl 20 (G c d a + b + x8 + 0x455a14ed);
         a = b + word_rotl 5 (G b c d + a + xd + 0xa9e3e905);
         d = a + word_rotl 9 (G a b c + d + x2 + 0xfcefa3f8);
         c = d + word_rotl 14 (G d a b + c + x7 + 0x676f02d9);
         b = c + word_rotl 20 (G c d a + b + xc + 0x8d2a4c8a);
         a = b + word_rotl 4 (H b c d + a + x5 + 0xfffa3942);
         d = a + word_rotl 11 (H a b c + d + x8 + 0x8771f681);
         c = d + word_rotl 16 (H d a b + c + xb + 0x6d9d6122);
         b = c + word_rotl 23 (H c d a + b + xe + 0xfde5380c);
         a = b + word_rotl 4 (H b c d + a + x1 + 0xa4beea44);
         d = a + word_rotl 11 (H a b c + d + x4 + 0x4bdecfa9);
         c = d + word_rotl 16 (H d a b + c + x7 + 0xf6bb4b60);
         b = c + word_rotl 23 (H c d a + b + xa + 0xbebfbc70);
         a = b + word_rotl 4 (H b c d + a + xd + 0x289b7ec6);
         d = a + word_rotl 11 (H a b c + d + x0 + 0xeaa127fa);
         c = d + word_rotl 16 (H d a b + c + x3 + 0xd4ef3085);
         b = c + word_rotl 23 (H c d a + b + x6 + 0x04881d05);
         a = b + word_rotl 4 (H b c d + a + x9 + 0xd9d4d039);
         d = a + word_rotl 11 (H a b c + d + xc + 0xe6db99e5);
         c = d + word_rotl 16 (H d a b + c + xf + 0x1fa27cf8);
         b = c + word_rotl 23 (H c d a + b + x2 + 0xc4ac5665);
         a = b + word_rotl 6 (I b c d + a + x0 + 0xf4292244);
         d = a + word_rotl 10 (I a b c + d + x7 + 0x432aff97);
         c = d + word_rotl 15 (I d a b + c + xe + 0xab9423a7);
         b = c + word_rotl 21 (I c d a + b + x5 + 0xfc93a039);
         a = b + word_rotl 6 (I b c d + a + xc + 0x655b59c3);
         d = a + word_rotl 10 (I a b c + d + x3 + 0x8f0ccc92);
         c = d + word_rotl 15 (I d a b + c + xa + 0xffeff47d);
         b = c + word_rotl 21 (I c d a + b + x1 + 0x85845dd1);
         a = b + word_rotl 6 (I b c d + a + x8 + 0x6fa87e4f);
         d = a + word_rotl 10 (I a b c + d + xf + 0xfe2ce6e0);
         c = d + word_rotl 15 (I d a b + c + x6 + 0xa3014314);
         b = c + word_rotl 21 (I c d a + b + xd + 0x4e0811a1);
         a = b + word_rotl 6 (I b c d + a + x4 + 0xf7537e82);
         d = a + word_rotl 10 (I a b c + d + xb + 0xbd3af235);
         c = d + word_rotl 15 (I d a b + c + x2 + 0x2ad7d2bb);
         b = c + word_rotl 21 (I c d a + b + x9 + 0xeb86d391)
        in (s0 + a, s1 + b, s2 + c, s3 + d)))"

fun uints :: "wstate \<Rightarrow> State" where
  "uints (a, b, c, d) = (uint a, uint b, uint c, uint d)"

text \<open>
  A number of \<open>hash\<close> and a word of \<open>compress_spec\<close> agree when the word is the number
  modulo \<open>2^32\<close>; a state of \<open>hash\<close> and a state of words agree when the numbers are
  the unsigned values of the words.
\<close>

definition relw :: "int \<Rightarrow> 32 word \<Rightarrow> bool" where
  "relw v w = (word_of_int v = w)"

definition agreew :: "State \<Rightarrow> wstate \<Rightarrow> bool" where
  "agreew res wres = (res = uints wres)"

section \<open>Auxiliary facts\<close>

lemma js_ushr_0: "js_ushr x 0 = x mod 2 ^ 32"
  by (simp add: js_ushr_def uint_word_of_int take_bit_eq_mod)

lemma is_u32_ushr: "is_u32 (js_ushr x n)"
proof -
  have "uint (drop_bit (nat (n mod 32)) (word_of_int x :: 32 word)) < 2 ^ 32"
    using uint_bounded [of "drop_bit (nat (n mod 32)) (word_of_int x :: 32 word)"] by simp
  then show ?thesis by (simp add: is_u32_def js_ushr_def)
qed

lemma state_u32_Let: "(\<And>x. state_u32 (f x)) \<Longrightarrow> state_u32 (Let e f)"
  by simp

lemma round1_word: "((c XOR d) AND b) XOR d = F b c d"
  unfolding F_def by (rule bit_eqI) (auto simp: bit_simps)

lemma round2_word: "((b XOR c) AND d) XOR c = G b c d"
  unfolding G_def by (rule bit_eqI) (auto simp: bit_simps)

lemma round3_word: "(b XOR c) XOR d = H b c d"
  unfolding H_def by (rule bit_eqI) (auto simp: bit_simps)

lemma round1_js: "js_xor (js_and (js_xor c d) b) d = sint (F (word_of_int b) (word_of_int c) (word_of_int d))"
  unfolding js_xor_def js_and_def round1_word [symmetric] by simp

lemma round2_js: "js_xor (js_and (js_xor b c) d) c = sint (G (word_of_int b) (word_of_int c) (word_of_int d))"
  unfolding js_xor_def js_and_def round2_word [symmetric] by simp

lemma round3_js: "js_xor (js_xor b c) d = sint (H (word_of_int b) (word_of_int c) (word_of_int d))"
  unfolding js_xor_def round3_word [symmetric] by simp

lemma round4_js: "js_xor c (js_or b (js_not d)) = sint (I (word_of_int b) (word_of_int c) (word_of_int d))"
  unfolding js_xor_def js_or_def js_not_def I_def by simp

declare blocks_fold.simps [simp del]

declare update_loop.simps [simp del]

lemma ta_slice_nonneg:
  "0 \<le> i \<Longrightarrow> 0 \<le> j \<Longrightarrow> ta_slice xs i j = take (nat j - nat i) (drop (nat i) xs)"
  by (auto simp: ta_slice_def rel_index_def Let_def min_def)

lemma ta_slice_from_nonneg:
  "0 \<le> i \<Longrightarrow> ta_slice_from xs i = drop (nat i) xs"
  by (auto simp: ta_slice_from_def rel_index_def min_def)

lemma update_loop_blocks:
  "0 \<le> i \<Longrightarrow> i \<le> int (length msg) \<Longrightarrow>
   (case update_loop h msg s i of (s', i') \<Rightarrow>
      blocks_fold h s (drop (nat i) msg) = (s', drop (nat i') msg)
      \<and> i \<le> i' \<and> i' \<le> int (length msg) \<and> int (length msg) - i' < 64)"
proof (induction h msg s i rule: update_loop.induct)
  case (1 h msg state i)
  show ?case
  proof (cases "i + BLOCK_SIZE \<le> int (length msg)")
    case True
    have sl: "ta_slice msg i (i + BLOCK_SIZE) = take 64 (drop (nat i) msg)"
      using "1.prems" by (simp add: ta_slice_nonneg BLOCK_SIZE_def nat_add_distrib)
    have dr: "nat (i + BLOCK_SIZE) = 64 + nat i"
      using "1.prems" by (simp add: BLOCK_SIZE_def)
    have len: "64 \<le> length (drop (nat i) msg)"
      using True "1.prems" by (simp add: BLOCK_SIZE_def)
    have ih: "case update_loop h msg (h state (ta_slice msg i (i + BLOCK_SIZE))) (i + BLOCK_SIZE) of
        (s', i') \<Rightarrow> blocks_fold h (h state (ta_slice msg i (i + BLOCK_SIZE))) (drop (nat (i + BLOCK_SIZE)) msg) = (s', drop (nat i') msg)
      \<and> i + BLOCK_SIZE \<le> i' \<and> i' \<le> int (length msg) \<and> int (length msg) - i' < 64"
      using "1.IH" [OF True] True "1.prems" by (simp add: BLOCK_SIZE_def)
    have ul: "update_loop h msg state i
        = update_loop h msg (h state (ta_slice msg i (i + BLOCK_SIZE))) (i + BLOCK_SIZE)"
      using True by (subst update_loop.simps) simp
    have bf: "blocks_fold h state (drop (nat i) msg)
        = blocks_fold h (h state (ta_slice msg i (i + BLOCK_SIZE))) (drop (nat (i + BLOCK_SIZE)) msg)"
      using len by (subst blocks_fold.simps) (simp add: sl dr)
    show ?thesis
      using ih unfolding ul bf by (auto simp: BLOCK_SIZE_def split: prod.splits)
  next
    case False
    have ul: "update_loop h msg state i = (state, i)"
      using False by (subst update_loop.simps) simp
    have short: "\<not> 64 \<le> length (drop (nat i) msg)"
      using False "1.prems" by (simp add: BLOCK_SIZE_def)
    have bf: "blocks_fold h state (drop (nat i) msg) = (state, drop (nat i) msg)"
      by (subst blocks_fold.simps) (simp only: short if_False)
    show ?thesis
      using False "1.prems" unfolding ul bf by (simp add: BLOCK_SIZE_def)
  qed
qed

lemma blocks_fold_length:
  "length (snd (blocks_fold h s xs)) = length xs mod 64"
proof (induction h s xs rule: blocks_fold.induct)
  case (1 h s xs)
  show ?case
  proof (cases "64 \<le> length xs")
    case True
    have "length xs mod 64 = (length xs - 64) mod 64"
      using True by (simp add: le_mod_geq)
    with "1.IH" [OF True] True show ?thesis
      by (subst blocks_fold.simps) simp
  next
    case False
    then show ?thesis by (subst blocks_fold.simps) simp
  qed
qed

lemma update_with_blocks:
  fixes h :: "State \<Rightarrow> byte list \<Rightarrow> State" and state :: State
    and block msg :: "byte list" and pos n0 n1 :: int
  assumes pos: "0 \<le> pos" "pos < 64" and blen: "length block = 64"
  defines "r \<equiv> blocks_fold h state (take (nat pos) block @ msg)"
  shows "\<exists>block'. update_with h state block pos n0 n1 msg =
            Inr (fst r, block', int (length (snd r)),
                 fst (addLength n0 n1 (int (length msg))),
                 snd (addLength n0 n1 (int (length msg))))
          \<and> length block' = 64 \<and> take (length (snd r)) block' = snd r"
proof (cases "int (length msg) < BLOCK_SIZE - pos")
  case True
  have short: "\<not> 64 \<le> length (take (nat pos) block @ msg)"
    using True pos blen by (simp add: BLOCK_SIZE_def)
  have r: "r = (state, take (nat pos) block @ msg)"
    unfolding r_def by (subst blocks_fold.simps) (simp only: short if_False)
  have set: "ta_set block msg pos
      = Inr (take (nat pos) block @ msg @ drop (nat pos + length msg) block)"
    using True pos blen by (simp add: ta_set_def BLOCK_SIZE_def)
  have len: "int (length (take (nat pos) block @ msg)) = pos + int (length msg)"
    using pos blen by simp
  show ?thesis
    using True pos blen
    by (simp add: update_with_def Let_def set r split: prod.splits)
       (simp add: BLOCK_SIZE_def)
next
  case False
  define free where "free = BLOCK_SIZE - pos"
  have free: "0 < free" "free \<le> 64" "free \<le> int (length msg)" "nat pos + nat free = 64"
    "64 - nat pos = nat free"
    using False pos by (simp_all add: free_def BLOCK_SIZE_def)
  define block1 where "block1 = take (nat pos) block @ take (nat free) msg"
  have b1len: "length block1 = 64"
    using free pos blen by (simp add: block1_def)
  have sl: "ta_slice msg 0 free = take (nat free) msg"
    using free by (simp add: ta_slice_nonneg)
  have set1: "ta_set block (ta_slice msg 0 free) pos = Inr block1"
    using free pos blen by (simp add: ta_set_def sl block1_def)
  obtain s' i' where ul: "update_loop h msg (h state block1) free = (s', i')"
    by (cases "update_loop h msg (h state block1) free")
  have loop: "blocks_fold h (h state block1) (drop (nat free) msg) = (s', drop (nat i') msg)"
    "free \<le> i'" "i' \<le> int (length msg)" "int (length msg) - i' < 64"
    using update_loop_blocks [of free msg h "h state block1"] free ul by simp_all
  have long: "64 \<le> length (take (nat pos) block @ msg)"
    using free pos blen by simp
  have tk: "take 64 (take (nat pos) block @ msg) = block1"
    using free pos blen by (simp add: block1_def)
  have dr: "drop 64 (take (nat pos) block @ msg) = drop (nat free) msg"
    using free pos blen by simp
  have r: "r = (s', drop (nat i') msg)"
    unfolding r_def by (subst blocks_fold.simps) (simp only: long if_True tk dr loop)
  have set2: "ta_set (ta_fill block1 0) (ta_slice_from msg i') 0
      = Inr (drop (nat i') msg @ replicate (64 - (length msg - nat i')) 0)"
    using loop free b1len by (simp add: ta_set_def ta_fill_def ta_slice_from_nonneg)
  have len: "int (length (drop (nat i') msg)) = int (length msg) - i'"
    using loop free by simp
  have upd: "update_with h state block pos n0 n1 msg
      = Inr (s', drop (nat i') msg @ replicate (64 - (length msg - nat i')) 0,
             int (length msg) - i',
             fst (addLength n0 n1 (int (length msg))),
             snd (addLength n0 n1 (int (length msg))))"
    using False
    by (simp add: update_with_def Let_def free_def [symmetric] set1 ul set2 split: prod.splits)
  show ?thesis
    unfolding upd r using loop free by (simp add: len)
qed

lemma addLength_carry:
  assumes "0 \<le> n0" "0 \<le> len" "n0 + len < 2 ^ 33"
  shows "addLength n0 n1 len = ((n0 + len) mod 2 ^ 32, n1 + (n0 + len) div 2 ^ 32)"
proof (cases "n0 + len < 2 ^ 32")
  case True
  then show ?thesis using assms by (simp add: addLength_def Let_def js_ushr_0)
next
  case False
  then have "(n0 + len) div 2 ^ 32 = 1"
    using assms by (intro int_div_pos_eq [where r = "n0 + len - 2 ^ 32"]) simp_all
  then show ?thesis using False by (simp add: addLength_def Let_def js_ushr_0)
qed

lemma div_mod_carry_gen:
  fixes s r M :: int
  assumes "M \<noteq> 0"
  shows "s div M + (s mod M + r) div M = (s + r) div M"
proof -
  have "s + r = (s mod M + r) + (s div M) * M"
    by (simp add: algebra_simps)
  then have "(s + r) div M = ((s mod M + r) + (s div M) * M) div M"
    by (simp only:)
  also have "\<dots> = s div M + (s mod M + r) div M"
    using assms by (rule div_mult_self1)
  finally show ?thesis by simp
qed

lemma div_mod_carry:
  fixes s r :: int
  shows "s div 2 ^ 32 + (s mod 2 ^ 32 + r) div 2 ^ 32 = (s + r) div 2 ^ 32"
  by (rule div_mod_carry_gen) simp

lemma blocks_fold_short: "length xs < 64 \<Longrightarrow> blocks_fold h s xs = (s, xs)"
  by (subst blocks_fold.simps) simp

lemma blocks_fold_append:
  "blocks_fold h s (xs @ ys)
     = blocks_fold h (fst (blocks_fold h s xs)) (snd (blocks_fold h s xs) @ ys)"
proof (induction h s xs rule: blocks_fold.induct)
  case (1 h s xs)
  show ?case
  proof (cases "64 \<le> length xs")
    case True
    have l: "blocks_fold h s (xs @ ys) = blocks_fold h (h s (take 64 xs)) (drop 64 xs @ ys)"
      using True by (subst blocks_fold.simps) simp
    have r: "blocks_fold h s xs = blocks_fold h (h s (take 64 xs)) (drop 64 xs)"
      using True by (subst blocks_fold.simps) simp
    show ?thesis unfolding l r using "1.IH" [OF True] .
  next
    case False
    then show ?thesis by (simp add: blocks_fold_short)
  qed
qed

lemma update_all_blocks:
  fixes state :: State and block :: "byte list" and pos n0 n1 :: int
  assumes "0 \<le> pos" "pos < 64" "length block = 64"
    and "0 \<le> n0" "n0 < 2 ^ 32" "n0 + int (length (concat chunks)) < 2 ^ 33"
  shows "\<exists>block'. update_all (state, block, pos, n0, n1) chunks =
            Inr (fst (blocks_fold hash state (take (nat pos) block @ concat chunks)), block',
                 int (length (snd (blocks_fold hash state (take (nat pos) block @ concat chunks)))),
                 (n0 + int (length (concat chunks))) mod 2 ^ 32,
                 n1 + (n0 + int (length (concat chunks))) div 2 ^ 32)
          \<and> length block' = 64
          \<and> take (length (snd (blocks_fold hash state (take (nat pos) block @ concat chunks)))) block'
              = snd (blocks_fold hash state (take (nat pos) block @ concat chunks))"
  using assms
proof (induction chunks arbitrary: state block pos n0 n1)
  case Nil
  have "blocks_fold hash state (take (nat pos) block) = (state, take (nat pos) block)"
    using Nil.prems by (simp add: blocks_fold_short)
  then show ?case using Nil.prems by simp
next
  case (Cons m ms)
  define r where "r = blocks_fold hash state (take (nat pos) block @ m)"
  define s where "s = n0 + int (length m)"
  define rest where "rest = int (length (concat ms))"
  have s: "0 \<le> s" "s + rest < 2 ^ 33" "s < 2 ^ 33"
    using Cons.prems by (simp_all add: s_def rest_def)
  have cnt: "addLength n0 n1 (int (length m)) = (s mod 2 ^ 32, n1 + s div 2 ^ 32)"
    using Cons.prems s unfolding s_def by (intro addLength_carry) simp_all
  obtain b1 where u: "update state block pos n0 n1 m
        = Inr (fst r, b1, int (length (snd r)), s mod 2 ^ 32, n1 + s div 2 ^ 32)"
      and b1: "length b1 = 64" "take (length (snd r)) b1 = snd r"
    using update_with_blocks [where pos = pos and block = block and h = hash and state = state
        and msg = m and ?n0.0 = n0 and ?n1.0 = n1] Cons.prems
    unfolding update_def r_def cnt by auto
  have lt: "int (length (snd r)) < 64"
    by (simp add: r_def blocks_fold_length)
  have low: "s mod 2 ^ 32 + rest < 2 ^ 33"
  proof -
    have "s mod 2 ^ 32 \<le> s" using s by (intro zmod_le_nonneg_dividend)
    then show ?thesis using s by simp
  qed
  define r2 where
    "r2 = blocks_fold hash (fst r) (take (nat (int (length (snd r)))) b1 @ concat ms)"
  have ih: "\<exists>block'. update_all (fst r, b1, int (length (snd r)), s mod 2 ^ 32, n1 + s div 2 ^ 32) ms =
            Inr (fst r2, block', int (length (snd r2)),
                 (s mod 2 ^ 32 + rest) mod 2 ^ 32,
                 n1 + s div 2 ^ 32 + (s mod 2 ^ 32 + rest) div 2 ^ 32)
          \<and> length block' = 64 \<and> take (length (snd r2)) block' = snd r2"
    unfolding r2_def rest_def
    using lt b1 low by (intro Cons.IH) (simp_all add: rest_def)
  have comp: "r2 = blocks_fold hash state (take (nat pos) block @ concat (m # ms))"
    using b1 blocks_fold_append [of hash state "take (nat pos) block @ m" "concat ms"]
    by (simp add: r2_def r_def)
  have c0: "(s mod 2 ^ 32 + rest) mod 2 ^ 32 = (n0 + int (length (concat (m # ms)))) mod 2 ^ 32"
    by (simp add: s_def rest_def mod_add_left_eq add.assoc)
  have c1: "n1 + s div 2 ^ 32 + (s mod 2 ^ 32 + rest) div 2 ^ 32
      = n1 + (n0 + int (length (concat (m # ms)))) div 2 ^ 32"
    using div_mod_carry [of s rest] by (simp add: s_def rest_def add.assoc)
  show ?case
    using ih unfolding c0 c1 comp by (simp add: u)
qed

lemma sint_mod: "sint (w :: 32 word) mod 2 ^ 32 = uint w"
proof -
  have "take_bit 32 (sint w) = take_bit 32 (uint w)"
    by (simp add: sint_uint take_bit_signed_take_bit)
  also have "\<dots> = uint w"
    by (rule take_bit_int_eq_self) (use uint_bounded [of w] in simp_all)
  finally show ?thesis
    by (simp only: take_bit_eq_mod)
qed

lemma bit_255: "bit (255 :: int) n \<longleftrightarrow> n < 8"
proof -
  have "(255 :: int) = mask 8" by (simp add: mask_eq_exp_minus_1)
  then have "bit (255 :: int) n = bit (mask 8 :: int) n" by (simp only:)
  also have "\<dots> \<longleftrightarrow> n < 8" by (simp only: bit_mask_iff) simp
  finally show ?thesis .
qed

lemma byte_and_255b: "(word_of_int (js_and x 255) :: 8 word) = word_of_int x"
  unfolding js_and_def
  by (rule bit_eqI) (auto simp: bit_simps bit_255)

lemma byte_and_255: "uint (word_of_int (js_and x 255) :: 8 word) = x mod 256"
  by (simp add: byte_and_255b uint_word_of_int)

lemma js_ushr_div: "js_ushr x n = (x mod 2 ^ 32) div 2 ^ nat (n mod 32)"
  unfolding js_ushr_def unsigned_drop_bit_eq
  by (simp only: drop_bit_eq_div uint_word_of_int take_bit_eq_mod) simp

lemma js_shl_3_mod: "js_shl x 3 mod 2 ^ 32 = (x * 8) mod 2 ^ 32"
  unfolding js_shl_def sint_mod
  by (simp add: push_bit_eq_mult uint_word_ariths uint_word_of_int mod_mult_left_eq)

lemma bytes4:
  fixes u :: int
  assumes "0 \<le> u" "u < 2 ^ 32"
  shows "u mod 256 + 256 * (u div 2 ^ 8 mod 256 + 256 * (u div 2 ^ 16 mod 256 + 256 * (u div 2 ^ 24 mod 256))) = u"
proof -
  have a: "u div 2 ^ 24 mod 256 = u div 2 ^ 24" using assms by simp
  have b: "u div 2 ^ 24 = (u div 2 ^ 16) div 256" "u div 2 ^ 16 = (u div 2 ^ 8) div 256" "u div 2 ^ 8 = u div 256"
    by (simp_all add: div_mult2_eq [symmetric] zdiv_zmult2_eq [symmetric])
  show ?thesis
    unfolding a unfolding b by (simp only: mod_mult_div_eq mult_div_mod_eq)
qed

lemma pad_length_cases:
  "pad_length pos = (if 55 < pos then 128 - pos else 64 - pos)"
  by (simp add: pad_length_def BLOCK_SIZE_def Let_def)

lemma length_ta_put [simp]: "length (ta_put xs i v) = length xs"
  by (simp add: ta_put_def)

lemma length_put_last [simp]: "length (put_last xs j v) = length xs"
  by (simp add: put_last_def)

lemma md5_pad_chain:
  "md5_pad pos n0 n1 =
     (case ta_new (pad_length pos) of
        Inl e \<Rightarrow> Inl e
      | Inr pad \<Rightarrow>
          Inr (put_last (put_last (put_last (put_last (put_last (put_last (put_last (put_last
                 (ta_put pad 0 0x80)
                 8 (js_and (js_shl n0 3) 0xff))
                 7 (js_and (js_ushr (js_shl n0 3) 8) 0xff))
                 6 (js_and (js_ushr (js_shl n0 3) 16) 0xff))
                 5 (js_and (js_ushr (js_shl n0 3) 24) 0xff))
                 4 (js_and (js_or (js_shl n1 3) (js_ushr n0 29)) 0xff))
                 3 (js_and (js_ushr (js_or (js_shl n1 3) (js_ushr n0 29)) 8) 0xff))
                 2 (js_and (js_ushr (js_or (js_shl n1 3) (js_ushr n0 29)) 16) 0xff))
                 1 (js_and (js_ushr (js_or (js_shl n1 3) (js_ushr n0 29)) 24) 0xff),
               js_shl n0 3, js_or (js_shl n1 3) (js_ushr n0 29)))"
  by (simp only: md5_pad_def Let_def put_last_def prod.case)

lemma md5_pad_bytes:
  assumes "0 \<le> pos" "pos < 64"
  shows "md5_pad pos n0 n1 =
     Inr (pad_bytes (nat (pad_length pos) - 9) (js_shl n0 3) (js_or (js_shl n1 3) (js_ushr n0 29)),
          js_shl n0 3, js_or (js_shl n1 3) (js_ushr n0 29))"
proof -
  define k where "k = nat (pad_length pos) - 9"
  have n: "pad_length pos = int k + 9"
    using assms by (simp add: k_def pad_length_cases)
  have new: "ta_new (pad_length pos) = Inr (0 # replicate k 0 @ [0, 0, 0, 0, 0, 0, 0, 0])"
  proof -
    have "nat (int k + 9) = Suc (k + 8)" by simp
    moreover have "replicate 8 (0 :: byte) = [0, 0, 0, 0, 0, 0, 0, 0]"
      by (simp add: numeral_eq_Suc)
    ultimately have "replicate (nat (int k + 9)) (0 :: byte) = 0 # replicate k 0 @ [0, 0, 0, 0, 0, 0, 0, 0]"
      by (simp only: replicate_Suc replicate_add)
    then show ?thesis unfolding n ta_new_def by simp
  qed
  have put: "put_last xs j v = xs[nat (int k + 9 - j) := word_of_int v]"
    if "length xs = k + 9" "1 \<le> j" "j \<le> 8" for xs j v
    using that by (simp add: put_last_def ta_put_def)
  show ?thesis
    unfolding md5_pad_chain new k_def [symmetric]
    by (simp add: put ta_put_def pad_bytes_def list_update_append nat_add_distrib)
qed

lemma md5_final_blocks:
  assumes "0 \<le> pos" "pos < 64" "length block = 64"
  shows "md5_final (state, block, pos, n0, n1)
     = digest (fst (blocks_fold hash state (take (nat pos) block @ padding pos n0 n1)))"
proof -
  define m0 where "m0 = js_shl n0 3"
  define m1 where "m1 = js_or (js_shl n1 3) (js_ushr n0 29)"
  define pad where "pad = padding pos n0 n1"
  have p: "md5_pad pos n0 n1 = Inr (pad, m0, m1)"
    using assms by (simp add: md5_pad_bytes pad_def padding_def m0_def m1_def)
  obtain block' where
    u: "update state block pos m0 m1 pad
         = Inr (fst (blocks_fold hash state (take (nat pos) block @ pad)), block',
                int (length (snd (blocks_fold hash state (take (nat pos) block @ pad)))),
                fst (addLength m0 m1 (int (length pad))), snd (addLength m0 m1 (int (length pad))))"
    using update_with_blocks [where pos = pos and block = block and h = hash and state = state
        and msg = pad and ?n0.0 = m0 and ?n1.0 = m1] assms
    unfolding update_def by blast
  have "md5_final (state, block, pos, n0, n1)
      = (case update state block pos m0 m1 pad of
           Inl e \<Rightarrow> Inl e
         | Inr (state, block, pos, n0, n1) \<Rightarrow> digest state)"
    by (simp only: md5_final_def prod.case p sum.case)
  also have "\<dots> = digest (fst (blocks_fold hash state (take (nat pos) block @ pad)))"
    by (simp only: u sum.case prod.case)
  finally show ?thesis unfolding pad_def .
qed


lemma ta_new_block: "ta_new BLOCK_SIZE = Inr (replicate 64 0)"
  by (simp add: ta_new_def BLOCK_SIZE_def)

lemma md5_blocks:
  "md5 msg = digest (fst (blocks_fold hash init_state
       (msg @ padding (int (length msg mod 64))
                (fst (addLength 0 0 (int (length msg)))) (snd (addLength 0 0 (int (length msg)))))))"
proof -
  define r where "r = blocks_fold hash init_state msg"
  define n0 where "n0 = fst (addLength 0 0 (int (length msg)))"
  define n1 where "n1 = snd (addLength 0 0 (int (length msg)))"
  obtain block' where
    u: "update init_state (replicate 64 0) 0 0 0 msg
         = Inr (fst r, block', int (length (snd r)), n0, n1)"
    and b: "length block' = 64" "take (length (snd r)) block' = snd r"
    using update_with_blocks [where pos = 0 and block = "replicate 64 0" and h = hash
        and state = init_state and msg = msg and ?n0.0 = 0 and ?n1.0 = 0]
    unfolding update_def r_def n0_def n1_def by auto
  have len: "length (snd r) = length msg mod 64"
    by (simp add: r_def blocks_fold_length)
  have fin: "md5_final (fst r, block', int (length (snd r)), n0, n1)
      = digest (fst (blocks_fold hash (fst r) (snd r @ padding (int (length (snd r))) n0 n1)))"
    using md5_final_blocks [of "int (length (snd r))" block' "fst r" n0 n1] b len by simp
  have comp: "blocks_fold hash (fst r) (snd r @ padding (int (length (snd r))) n0 n1)
      = blocks_fold hash init_state (msg @ padding (int (length (snd r))) n0 n1)"
    unfolding r_def by (rule blocks_fold_append [symmetric])
  have "md5 msg = md5_final (fst r, block', int (length (snd r)), n0, n1)"
    by (simp only: md5_def ta_new_block sum.case u)
  also have "\<dots> = digest (fst (blocks_fold hash init_state
       (msg @ padding (int (length (snd r))) n0 n1)))"
    by (simp only: fin comp)
  finally show ?thesis unfolding len n0_def n1_def .
qed


lemma le_decode_4:
  "le_decode [word_of_int (js_and m 0xff), word_of_int (js_and (js_ushr m 8) 0xff),
              word_of_int (js_and (js_ushr m 16) 0xff), word_of_int (js_and (js_ushr m 24) 0xff)]
     = m mod 2 ^ 32"
proof -
  define u where "u = m mod 2 ^ 32"
  have u: "0 \<le> u" "u < 2 ^ 32" by (simp_all add: u_def)
  have b0: "m mod 256 = u mod 256"
    unfolding u_def by (simp add: mod_mod_cancel)
  have s: "js_ushr m 8 = u div 2 ^ 8" "js_ushr m 16 = u div 2 ^ 16" "js_ushr m 24 = u div 2 ^ 24"
    unfolding u_def js_ushr_div by simp_all
  have "le_decode [word_of_int (js_and m 0xff), word_of_int (js_and (js_ushr m 8) 0xff),
              word_of_int (js_and (js_ushr m 16) 0xff), word_of_int (js_and (js_ushr m 24) 0xff)]
      = m mod 256 + 256 * (js_ushr m 8 mod 256 + 256 * (js_ushr m 16 mod 256
          + 256 * (js_ushr m 24 mod 256 + 256 * 0)))"
    by (simp only: le_decode.simps byte_and_255)
  also have "\<dots> = u mod 256 + 256 * (u div 2 ^ 8 mod 256 + 256 * (u div 2 ^ 16 mod 256
          + 256 * (u div 2 ^ 24 mod 256)))"
    by (simp only: s b0 mult_zero_right add_0_right)
  also have "\<dots> = u"
    by (rule bytes4 [OF u])
  finally show ?thesis unfolding u_def .
qed

lemma le_decode_append:
  "le_decode (xs @ ys) = le_decode xs + 256 ^ length xs * le_decode ys"
  by (induction xs) (simp_all add: algebra_simps)

lemma le_decode_pad_low:
  "le_decode (take 4 (drop (length (pad_bytes k m0 m1) - 8) (pad_bytes k m0 m1))) = m0 mod 2 ^ 32"
  using le_decode_4 [of m0] by (simp add: pad_bytes_def)

lemma le_decode_pad_high:
  "le_decode (drop (length (pad_bytes k m0 m1) - 4) (pad_bytes k m0 m1)) = m1 mod 2 ^ 32"
  using le_decode_4 [of m1] by (simp add: pad_bytes_def)

lemma le_decode_pad:
  "le_decode (drop (length (pad_bytes k m0 m1) - 8) (pad_bytes k m0 m1))
     = m0 mod 2 ^ 32 + 2 ^ 32 * (m1 mod 2 ^ 32)"
proof -
  have "drop (length (pad_bytes k m0 m1) - 8) (pad_bytes k m0 m1)
      = [word_of_int (js_and m0 0xff), word_of_int (js_and (js_ushr m0 8) 0xff),
         word_of_int (js_and (js_ushr m0 16) 0xff), word_of_int (js_and (js_ushr m0 24) 0xff)]
        @ [word_of_int (js_and m1 0xff), word_of_int (js_and (js_ushr m1 8) 0xff),
           word_of_int (js_and (js_ushr m1 16) 0xff), word_of_int (js_and (js_ushr m1 24) 0xff)]"
    by (simp add: pad_bytes_def)
  then show ?thesis
    by (simp only: le_decode_append le_decode_4) simp
qed

lemma high_word_small:
  assumes "0 \<le> n0" "n0 < 2 ^ 32"
  shows "js_or (js_shl 0 3) (js_ushr n0 29) mod 2 ^ 32 = n0 div 2 ^ 29"
proof -
  have "js_or (js_shl 0 3) (js_ushr n0 29) = sint (word_of_int (js_ushr n0 29) :: 32 word)"
    by (simp add: js_or_def js_shl_def)
  then have "js_or (js_shl 0 3) (js_ushr n0 29) mod 2 ^ 32
      = uint (word_of_int (js_ushr n0 29) :: 32 word)"
    by (simp only: sint_mod)
  also have "\<dots> = js_ushr n0 29 mod 2 ^ 32"
    by (simp only: uint_word_of_int) simp
  also have "\<dots> = n0 div 2 ^ 29"
    using assms by (simp add: js_ushr_div)
  finally show ?thesis .
qed

lemma times8_split:
  fixes n :: int
  shows "(n * 8) mod 2 ^ 32 + 2 ^ 32 * (n div 2 ^ 29) = 8 * n"
proof -
  have "(n * 8) div 2 ^ 32 = n div 2 ^ 29"
    using div_mult_mult1 [of "8 :: int" n "2 ^ 29"] by (simp add: mult.commute)
  then show ?thesis
    using mult_div_mod_eq [of "2 ^ 32 :: int" "n * 8"] by simp
qed

lemma digest_length: "\<exists>d. digest state = Inr d \<and> length d = 16"
  by (cases state) (simp add: digest_def ta_new_def setUint32_def Let_def)

subsection \<open>The compressor on words\<close>

text \<open>
  \<open>hash\<close> on a state written out as a tuple, and the facts that carry the agreement of
  numbers and words through the operators of one line of \<open>hash\<close>.
\<close>

lemmas hash_tuple = hash_def [of "(s0, s1, s2, s3)" block, unfolded prod.case] for s0 s1 s2 s3 block

lemma w32_sint: "word_of_int (sint (w :: 32 word)) = w"
  by simp

lemma relw_add: "relw x x' \<Longrightarrow> relw y y' \<Longrightarrow> relw (x + y) (x' + y')"
  by (auto simp: relw_def)

lemma relw_num: "relw (numeral k) (numeral k)"
  by (simp add: relw_def)

lemma relw_get: "word_of_int (ta_get block (int i)) = (ucast (byte_at block i) :: 32 word)"
  by (simp add: ta_get_def byte_at_def)

lemma relw_word_le: "relw (blk block (int i)) (word_le block i)"
proof -
  have g: "word_of_int (ta_get block (int i + k)) = (ucast (byte_at block (i + nat k)) :: 32 word)"
    if "0 \<le> k" for k
    using relw_get [of block "i + nat k"] that by simp
  show ?thesis
    unfolding relw_def blk_def word_le_def js_or_def js_shl_def
    using g [of 1] g [of 2] g [of 3] relw_get [of block i]
    by (simp add: or.assoc)
qed

lemma relw_rol:
  assumes "0 < n" "n < 32" "relw v w"
  shows "relw (rol32 v (int n)) (word_rotl n w)"
proof -
  have n1: "nat (int n mod 32) = n"
    using assms by simp
  have "(32 - int n) mod 32 = 32 - int n"
    using assms by (intro mod_pos_pos_trivial) simp_all
  moreover have "(- int n) mod 32 = (32 - int n) mod 32"
    by simp
  ultimately have n2: "nat ((- int n) mod 32) = 32 - n"
    using assms by (simp only:)
  have w: "word_of_int v = w" using assms by (simp add: relw_def)
  have "rol32 v (int n) = sint (push_bit n w OR drop_bit (32 - n) w)"
    by (simp add: rol32_def js_or_def js_shl_def js_ushr_def n1 n2 w)
  then have "word_of_int (rol32 v (int n)) = push_bit n w OR drop_bit (32 - n) w"
    by (simp only: w32_sint)
  also have "\<dots> = word_rotl n w"
  proof (rule bit_eqI)
    fix m
    have hi: "\<not> bit w k" if "32 \<le> k" for k
      using that bit_imp_le_length [of w k] by auto
    have L: "bit (push_bit n w OR drop_bit (32 - n) w) m
        = ((n \<le> m \<and> m < 32 \<and> bit w (m - n)) \<or> bit w (32 - n + m))"
      by (simp add: bit_or_iff bit_push_bit_iff bit_drop_bit_eq)
    have R: "bit (word_rotl n w) m = (m < 32 \<and> bit w ((m + (32 - n)) mod 32))"
      using assms by (simp add: bit_word_rotl_iff)
    consider "32 \<le> m" | "m < n" | "n \<le> m" "m < 32"
      by linarith
    then show "bit (push_bit n w OR drop_bit (32 - n) w) m = bit (word_rotl n w) m"
    proof cases
      case 1
      then have "32 \<le> 32 - n + m" by simp
      then show ?thesis unfolding L R using 1 hi by auto
    next
      case 2
      then have "(m + (32 - n)) mod 32 = 32 - n + m" "m < 32"
        using assms by simp_all
      then show ?thesis unfolding L R using 2 by (auto simp: add.commute)
    next
      case 3
      then have "m + (32 - n) = (m - n) + 32" using assms by simp
      then have "(m + (32 - n)) mod 32 = (m - n) mod 32" by (simp only: mod_add_self2)
      moreover have "m - n < 32" using 3 by simp
      ultimately have "(m + (32 - n)) mod 32 = m - n" by (simp only: mod_less)
      moreover have "32 \<le> 32 - n + m" using 3 assms by simp
      ultimately show ?thesis unfolding L R using 3 hi by auto
    qed
  qed
  finally show ?thesis by (simp add: relw_def)
qed

lemma wline_F:
  assumes "relw a a'" "relw b b'" "relw c c'" "relw d d'" "relw x x'"
    and rot: "\<And>v w. relw v w \<Longrightarrow> relw (rol32 v s) (rt w)"
  shows "relw (b + rol32 (js_xor (js_and (js_xor c d) b) d + a + x + numeral k) s)
     (b' + rt (F b' c' d' + a' + x' + numeral k))"
proof -
  have "relw (js_xor (js_and (js_xor c d) b) d) (F b' c' d')"
    using assms by (simp add: relw_def round1_js)
  then show ?thesis
    by (intro relw_add rot relw_num assms)
qed

lemma wline_G:
  assumes "relw a a'" "relw b b'" "relw c c'" "relw d d'" "relw x x'"
    and rot: "\<And>v w. relw v w \<Longrightarrow> relw (rol32 v s) (rt w)"
  shows "relw (b + rol32 (js_xor (js_and (js_xor b c) d) c + a + x + numeral k) s)
     (b' + rt (G b' c' d' + a' + x' + numeral k))"
proof -
  have "relw (js_xor (js_and (js_xor b c) d) c) (G b' c' d')"
    using assms by (simp add: relw_def round2_js)
  then show ?thesis
    by (intro relw_add rot relw_num assms)
qed

lemma wline_H:
  assumes "relw a a'" "relw b b'" "relw c c'" "relw d d'" "relw x x'"
    and rot: "\<And>v w. relw v w \<Longrightarrow> relw (rol32 v s) (rt w)"
  shows "relw (b + rol32 (js_xor (js_xor b c) d + a + x + numeral k) s)
     (b' + rt (H b' c' d' + a' + x' + numeral k))"
proof -
  have "relw (js_xor (js_xor b c) d) (H b' c' d')"
    using assms by (simp add: relw_def round3_js)
  then show ?thesis
    by (intro relw_add rot relw_num assms)
qed

lemma wline_I:
  assumes "relw a a'" "relw b b'" "relw c c'" "relw d d'" "relw x x'"
    and rot: "\<And>v w. relw v w \<Longrightarrow> relw (rol32 v s) (rt w)"
  shows "relw (b + rol32 (js_xor c (js_or b (js_not d)) + a + x + numeral k) s)
     (b' + rt (I b' c' d' + a' + x' + numeral k))"
proof -
  have "relw (js_xor c (js_or b (js_not d))) (I b' c' d')"
    using assms by (simp add: relw_def round4_js)
  then show ?thesis
    by (intro relw_add rot relw_num assms)
qed

lemma let_relw:
  "relw e e' \<Longrightarrow> (\<And>v w. relw v w \<Longrightarrow> agreew (f v) (g w)) \<Longrightarrow> agreew (Let e f) (Let e' g)"
  by simp

lemma final_relw:
  assumes "relw s0 s0'" "relw s1 s1'" "relw s2 s2'" "relw s3 s3'"
    and "relw a a'" "relw b b'" "relw c c'" "relw d d'"
  shows "agreew (js_ushr (s0 + a) 0, js_ushr (s1 + b) 0, js_ushr (s2 + c) 0, js_ushr (s3 + d) 0)
     (s0' + a', s1' + b', s2' + c', s3' + d')"
  using assms by (auto simp: agreew_def relw_def js_ushr_def)

lemmas compress_spec_tuple = compress_spec_def [of "(s0, s1, s2, s3)" block, unfolded prod.case] for s0 s1 s2 s3 block

lemma relw_blk:
  "relw (blk block 0) (word_le block 0)"
  "relw (blk block 4) (word_le block 4)"
  "relw (blk block 8) (word_le block 8)"
  "relw (blk block 12) (word_le block 12)"
  "relw (blk block 16) (word_le block 16)"
  "relw (blk block 20) (word_le block 20)"
  "relw (blk block 24) (word_le block 24)"
  "relw (blk block 28) (word_le block 28)"
  "relw (blk block 32) (word_le block 32)"
  "relw (blk block 36) (word_le block 36)"
  "relw (blk block 40) (word_le block 40)"
  "relw (blk block 44) (word_le block 44)"
  "relw (blk block 48) (word_le block 48)"
  "relw (blk block 52) (word_le block 52)"
  "relw (blk block 56) (word_le block 56)"
  "relw (blk block 60) (word_le block 60)"
  using relw_word_le [of block 0] relw_word_le [of block 4] relw_word_le [of block 8] relw_word_le [of block 12] relw_word_le [of block 16] relw_word_le [of block 20] relw_word_le [of block 24] relw_word_le [of block 28] relw_word_le [of block 32] relw_word_le [of block 36] relw_word_le [of block 40] relw_word_le [of block 44] relw_word_le [of block 48] relw_word_le [of block 52] relw_word_le [of block 56] relw_word_le [of block 60]
  by simp_all

lemmas relw_rot =
  relw_rol [of 4, simplified]
  relw_rol [of 5, simplified]
  relw_rol [of 6, simplified]
  relw_rol [of 7, simplified]
  relw_rol [of 9, simplified]
  relw_rol [of 10, simplified]
  relw_rol [of 11, simplified]
  relw_rol [of 12, simplified]
  relw_rol [of 14, simplified]
  relw_rol [of 15, simplified]
  relw_rol [of 16, simplified]
  relw_rol [of 17, simplified]
  relw_rol [of 20, simplified]
  relw_rol [of 21, simplified]
  relw_rol [of 22, simplified]
  relw_rol [of 23, simplified]

text \<open>
  \<open>hash\<close> computes \<open>compress_spec\<close>: the proof walks through the bindings of both, line by
  line; at each line the number bound by \<open>hash\<close> and the word bound by \<open>compress_spec\<close>
  agree modulo \<open>2^32\<close>.
\<close>

lemma hash_compress_spec:
  "hash (s0, s1, s2, s3) block
     = uints (compress_spec (word_of_int s0, word_of_int s1, word_of_int s2, word_of_int s3) block)"
proof -
  have r0: "relw s0 (word_of_int s0)" and r1: "relw s1 (word_of_int s1)"
    and r2: "relw s2 (word_of_int s2)" and r3: "relw s3 (word_of_int s3)"
    by (simp_all add: relw_def)
  have "agreew (hash (s0, s1, s2, s3) block)
      (compress_spec (word_of_int s0, word_of_int s1, word_of_int s2, word_of_int s3) block)"
    unfolding hash_tuple compress_spec_tuple
    apply (rule let_relw [OF r0])
    apply (rule let_relw [OF r1])
    apply (rule let_relw [OF r2])
    apply (rule let_relw [OF r3])
    apply (rule let_relw [OF relw_blk(1)])
    apply (rule let_relw [OF relw_blk(2)])
    apply (rule let_relw [OF relw_blk(3)])
    apply (rule let_relw [OF relw_blk(4)])
    apply (rule let_relw [OF relw_blk(5)])
    apply (rule let_relw [OF relw_blk(6)])
    apply (rule let_relw [OF relw_blk(7)])
    apply (rule let_relw [OF relw_blk(8)])
    apply (rule let_relw [OF relw_blk(9)])
    apply (rule let_relw [OF relw_blk(10)])
    apply (rule let_relw [OF relw_blk(11)])
    apply (rule let_relw [OF relw_blk(12)])
    apply (rule let_relw [OF relw_blk(13)])
    apply (rule let_relw [OF relw_blk(14)])
    apply (rule let_relw [OF relw_blk(15)])
    apply (rule let_relw [OF relw_blk(16)])
    apply (rule let_relw, rule wline_F [OF _ _ _ _ _ relw_rot(4)], assumption+)
    apply (rule let_relw, rule wline_F [OF _ _ _ _ _ relw_rot(8)], assumption+)
    apply (rule let_relw, rule wline_F [OF _ _ _ _ _ relw_rot(12)], assumption+)
    apply (rule let_relw, rule wline_F [OF _ _ _ _ _ relw_rot(15)], assumption+)
    apply (rule let_relw, rule wline_F [OF _ _ _ _ _ relw_rot(4)], assumption+)
    apply (rule let_relw, rule wline_F [OF _ _ _ _ _ relw_rot(8)], assumption+)
    apply (rule let_relw, rule wline_F [OF _ _ _ _ _ relw_rot(12)], assumption+)
    apply (rule let_relw, rule wline_F [OF _ _ _ _ _ relw_rot(15)], assumption+)
    apply (rule let_relw, rule wline_F [OF _ _ _ _ _ relw_rot(4)], assumption+)
    apply (rule let_relw, rule wline_F [OF _ _ _ _ _ relw_rot(8)], assumption+)
    apply (rule let_relw, rule wline_F [OF _ _ _ _ _ relw_rot(12)], assumption+)
    apply (rule let_relw, rule wline_F [OF _ _ _ _ _ relw_rot(15)], assumption+)
    apply (rule let_relw, rule wline_F [OF _ _ _ _ _ relw_rot(4)], assumption+)
    apply (rule let_relw, rule wline_F [OF _ _ _ _ _ relw_rot(8)], assumption+)
    apply (rule let_relw, rule wline_F [OF _ _ _ _ _ relw_rot(12)], assumption+)
    apply (rule let_relw, rule wline_F [OF _ _ _ _ _ relw_rot(15)], assumption+)
    apply (rule let_relw, rule wline_G [OF _ _ _ _ _ relw_rot(2)], assumption+)
    apply (rule let_relw, rule wline_G [OF _ _ _ _ _ relw_rot(5)], assumption+)
    apply (rule let_relw, rule wline_G [OF _ _ _ _ _ relw_rot(9)], assumption+)
    apply (rule let_relw, rule wline_G [OF _ _ _ _ _ relw_rot(13)], assumption+)
    apply (rule let_relw, rule wline_G [OF _ _ _ _ _ relw_rot(2)], assumption+)
    apply (rule let_relw, rule wline_G [OF _ _ _ _ _ relw_rot(5)], assumption+)
    apply (rule let_relw, rule wline_G [OF _ _ _ _ _ relw_rot(9)], assumption+)
    apply (rule let_relw, rule wline_G [OF _ _ _ _ _ relw_rot(13)], assumption+)
    apply (rule let_relw, rule wline_G [OF _ _ _ _ _ relw_rot(2)], assumption+)
    apply (rule let_relw, rule wline_G [OF _ _ _ _ _ relw_rot(5)], assumption+)
    apply (rule let_relw, rule wline_G [OF _ _ _ _ _ relw_rot(9)], assumption+)
    apply (rule let_relw, rule wline_G [OF _ _ _ _ _ relw_rot(13)], assumption+)
    apply (rule let_relw, rule wline_G [OF _ _ _ _ _ relw_rot(2)], assumption+)
    apply (rule let_relw, rule wline_G [OF _ _ _ _ _ relw_rot(5)], assumption+)
    apply (rule let_relw, rule wline_G [OF _ _ _ _ _ relw_rot(9)], assumption+)
    apply (rule let_relw, rule wline_G [OF _ _ _ _ _ relw_rot(13)], assumption+)
    apply (rule let_relw, rule wline_H [OF _ _ _ _ _ relw_rot(1)], assumption+)
    apply (rule let_relw, rule wline_H [OF _ _ _ _ _ relw_rot(7)], assumption+)
    apply (rule let_relw, rule wline_H [OF _ _ _ _ _ relw_rot(11)], assumption+)
    apply (rule let_relw, rule wline_H [OF _ _ _ _ _ relw_rot(16)], assumption+)
    apply (rule let_relw, rule wline_H [OF _ _ _ _ _ relw_rot(1)], assumption+)
    apply (rule let_relw, rule wline_H [OF _ _ _ _ _ relw_rot(7)], assumption+)
    apply (rule let_relw, rule wline_H [OF _ _ _ _ _ relw_rot(11)], assumption+)
    apply (rule let_relw, rule wline_H [OF _ _ _ _ _ relw_rot(16)], assumption+)
    apply (rule let_relw, rule wline_H [OF _ _ _ _ _ relw_rot(1)], assumption+)
    apply (rule let_relw, rule wline_H [OF _ _ _ _ _ relw_rot(7)], assumption+)
    apply (rule let_relw, rule wline_H [OF _ _ _ _ _ relw_rot(11)], assumption+)
    apply (rule let_relw, rule wline_H [OF _ _ _ _ _ relw_rot(16)], assumption+)
    apply (rule let_relw, rule wline_H [OF _ _ _ _ _ relw_rot(1)], assumption+)
    apply (rule let_relw, rule wline_H [OF _ _ _ _ _ relw_rot(7)], assumption+)
    apply (rule let_relw, rule wline_H [OF _ _ _ _ _ relw_rot(11)], assumption+)
    apply (rule let_relw, rule wline_H [OF _ _ _ _ _ relw_rot(16)], assumption+)
    apply (rule let_relw, rule wline_I [OF _ _ _ _ _ relw_rot(3)], assumption+)
    apply (rule let_relw, rule wline_I [OF _ _ _ _ _ relw_rot(6)], assumption+)
    apply (rule let_relw, rule wline_I [OF _ _ _ _ _ relw_rot(10)], assumption+)
    apply (rule let_relw, rule wline_I [OF _ _ _ _ _ relw_rot(14)], assumption+)
    apply (rule let_relw, rule wline_I [OF _ _ _ _ _ relw_rot(3)], assumption+)
    apply (rule let_relw, rule wline_I [OF _ _ _ _ _ relw_rot(6)], assumption+)
    apply (rule let_relw, rule wline_I [OF _ _ _ _ _ relw_rot(10)], assumption+)
    apply (rule let_relw, rule wline_I [OF _ _ _ _ _ relw_rot(14)], assumption+)
    apply (rule let_relw, rule wline_I [OF _ _ _ _ _ relw_rot(3)], assumption+)
    apply (rule let_relw, rule wline_I [OF _ _ _ _ _ relw_rot(6)], assumption+)
    apply (rule let_relw, rule wline_I [OF _ _ _ _ _ relw_rot(10)], assumption+)
    apply (rule let_relw, rule wline_I [OF _ _ _ _ _ relw_rot(14)], assumption+)
    apply (rule let_relw, rule wline_I [OF _ _ _ _ _ relw_rot(3)], assumption+)
    apply (rule let_relw, rule wline_I [OF _ _ _ _ _ relw_rot(6)], assumption+)
    apply (rule let_relw, rule wline_I [OF _ _ _ _ _ relw_rot(10)], assumption+)
    apply (rule let_relw, rule wline_I [OF _ _ _ _ _ relw_rot(14)], assumption+)
    apply (rule final_relw [OF r0 r1 r2 r3]; assumption)
    done
  then show ?thesis by (simp add: agreew_def)
qed

subsection \<open>An input of \<open>2^33\<close> bytes\<close>








section \<open>The block compressor\<close>

text \<open>
  Claim C4. The block compressor is the compressor of the specification, the one written
  with the round functions \<open>F\<close>, \<open>G\<close>, \<open>H\<close>, \<open>I\<close>: on every state and block, \<open>hash\<close>
  returns the unsigned values of the words that \<open>compress_spec\<close> returns on the words of
  the state. Line by line, and for all numbers \<open>b\<close>, \<open>c\<close>, \<open>d\<close>, the mixing expression of
  round 1 is \<open>F\<close> of their 32-bit words, that of round 2 is \<open>G\<close>, and those of rounds 3
  and 4 are \<open>H\<close> and \<open>I\<close>, each read back as the signed number the operators return.
\<close>

theorem hash_round_functions:
  "hash (s0, s1, s2, s3) block
     = uints (compress_spec (word_of_int s0, word_of_int s1, word_of_int s2, word_of_int s3) block)
 \<and> js_xor (js_and (js_xor c d) b) d = sint (F (word_of_int b) (word_of_int c) (word_of_int d))
 \<and> js_xor (js_and (js_xor b c) d) c = sint (G (word_of_int b) (word_of_int c) (word_of_int d))
 \<and> js_xor (js_xor b c) d = sint (H (word_of_int b) (word_of_int c) (word_of_int d))
 \<and> js_xor c (js_or b (js_not d)) = sint (I (word_of_int b) (word_of_int c) (word_of_int d))"
  by (intro conjI) (rule hash_compress_spec round1_js round2_js round3_js round4_js)+

text \<open>
  Claim C10. Whatever the incoming state and the block, the four words that \<open>hash\<close>
  returns lie in \<open>[0, 2^32)\<close>: the final \<open>>>> 0\<close> makes them unsigned, although the
  round arithmetic before it works with signed results.
\<close>

theorem hash_state_u32: "state_u32 (hash state block)"
proof (cases state)
  case (fields s0 s1 s2 s3)
  show ?thesis
    unfolding hash_def fields prod.case
    by (intro state_u32_Let) (simp add: is_u32_ushr)
qed

section \<open>The update pipeline\<close>

text \<open>
  Claim C7. A call of \<open>update\<close> on a context with \<open>0 \<le> pos < 64\<close> (and its 64-byte
  buffer) returns, for a chunk of any length, and the \<open>pos\<close> it returns is in
  \<open>[0, 64)\<close> again: it is the number of pending bytes modulo 64.
\<close>

theorem update_pos_range:
  assumes "0 \<le> pos" "pos < 64" "length block = 64"
  shows "\<exists>state' block' pos' n0' n1'.
           update state block pos n0 n1 msg = Inr (state', block', pos', n0', n1')
         \<and> 0 \<le> pos' \<and> pos' < 64 \<and> pos' = (pos + int (length msg)) mod 64"
proof -
  define r where "r = blocks_fold hash state (take (nat pos) block @ msg)"
  have len: "int (length (snd r)) = (pos + int (length msg)) mod 64"
    using assms by (simp add: r_def blocks_fold_length zmod_int)
  obtain block' where "update state block pos n0 n1 msg =
      Inr (fst r, block', int (length (snd r)),
           fst (addLength n0 n1 (int (length msg))), snd (addLength n0 n1 (int (length msg))))"
    using update_with_blocks [where pos = pos and block = block and h = hash and state = state
        and msg = msg and ?n0.0 = n0 and ?n1.0 = n1] assms
    unfolding update_def r_def by blast
  then have "update state block pos n0 n1 msg =
      Inr (fst r, block', (pos + int (length msg)) mod 64,
           fst (addLength n0 n1 (int (length msg))), snd (addLength n0 n1 (int (length msg))))"
    by (simp only: len)
  moreover have "0 \<le> (pos + int (length msg)) mod 64" "(pos + int (length msg)) mod 64 < 64"
    by simp_all
  ultimately show ?thesis by blast
qed

theorem update_pos_range_witness:
  "(0 :: int) \<le> 60 \<and> (60 :: int) < 64 \<and> length (replicate 64 (0 :: byte)) = 64
   \<and> (\<exists>state' block' pos' n0' n1'.
         update init_state (replicate 64 0) 60 0 0 (replicate 10 1)
           = Inr (state', block', pos', n0', n1')
       \<and> 0 \<le> pos' \<and> pos' < 64 \<and> pos' = (60 + int (length (replicate 10 (1 :: byte)))) mod 64)"
  using update_pos_range [of 60 "replicate 64 0" init_state 0 0 "replicate 10 1"] by simp

text \<open>
  Claim C8. On a context with \<open>0 \<le> pos < 64\<close>, a 64-byte buffer and a low counter
  word in \<open>[0, 2^32)\<close>, an empty chunk leaves the state, the buffer, \<open>pos\<close> and both
  counter words as they are. The result is the same for every compressor \<open>h\<close> put in the
  place of \<open>hash\<close>: the compressor is not invoked.
\<close>

theorem update_empty_chunk:
  assumes "0 \<le> pos" "pos < 64" "length block = 64" "0 \<le> n0" "n0 < 2 ^ 32"
  shows "update state block pos n0 n1 [] = Inr (state, block, pos, n0, n1)
       \<and> (\<forall>h. update_with h state block pos n0 n1 [] = Inr (state, block, pos, n0, n1))"
  using assms
  by (simp add: update_def update_with_def BLOCK_SIZE_def ta_set_def addLength_def Let_def
        js_ushr_0)

theorem update_empty_chunk_witness:
  "(0 :: int) \<le> 5 \<and> (5 :: int) < 64 \<and> length (replicate 64 (7 :: byte)) = 64
   \<and> (0 :: int) \<le> 5 \<and> (5 :: int) < 2 ^ 32
   \<and> update init_state (replicate 64 7) 5 5 0 [] = Inr (init_state, replicate 64 7, 5, 5, 0)
   \<and> (\<forall>h. update_with h init_state (replicate 64 7) 5 5 0 []
          = Inr (init_state, replicate 64 7, 5, 5, 0))"
  using update_empty_chunk [of 5 "replicate 64 7" 5 init_state 0] by simp




section \<open>Finalization\<close>

text \<open>
  Claim C5. For an input of \<open>L\<close> bytes, the \<open>update\<close> of \<open>md5\<close> leaves
  \<open>pos = L mod 64\<close>, and the padding buffer built from it has length
  \<open>128 - L mod 64\<close> when \<open>L mod 64\<close> is 56 or more, and \<open>64 - L mod 64\<close> otherwise.
\<close>

theorem padding_length:
  "\<exists>state block n0 n1 pad m0 m1.
      update init_state (replicate 64 0) 0 0 0 msg
        = Inr (state, block, int (length msg mod 64), n0, n1)
    \<and> md5_pad (int (length msg mod 64)) n0 n1 = Inr (pad, m0, m1)
    \<and> int (length pad) = pad_length (int (length msg mod 64))
    \<and> pad_length (int (length msg mod 64))
        = (if 56 \<le> length msg mod 64 then 128 - int (length msg mod 64)
           else 64 - int (length msg mod 64))"
proof -
  define r where "r = blocks_fold hash init_state msg"
  have len: "length (snd r) = length msg mod 64"
    by (simp add: r_def blocks_fold_length)
  define n0 where "n0 = fst (addLength 0 0 (int (length msg)))"
  define n1 where "n1 = snd (addLength 0 0 (int (length msg)))"
  obtain block' where "update init_state (replicate 64 0) 0 0 0 msg =
      Inr (fst r, block', int (length (snd r)), n0, n1)"
    using update_with_blocks [where pos = 0 and block = "replicate 64 0" and h = hash
        and state = init_state and msg = msg and ?n0.0 = 0 and ?n1.0 = 0]
    unfolding update_def r_def n0_def n1_def by auto
  then have u: "update init_state (replicate 64 0) 0 0 0 msg =
      Inr (fst r, block', int (length msg mod 64), n0, n1)"
    by (simp only: len)
  have pos: "0 \<le> int (length msg mod 64)" "int (length msg mod 64) < 64"
    by simp_all
  have pl: "pad_length (int (length msg mod 64))
        = (if 56 \<le> length msg mod 64 then 128 - int (length msg mod 64)
           else 64 - int (length msg mod 64))"
    by (simp add: pad_length_cases)
  have k: "int (length (pad_bytes (nat (pad_length (int (length msg mod 64))) - 9) m0 m1))
      = pad_length (int (length msg mod 64))" for m0 m1
    using pos by (simp add: pad_bytes_def pad_length_cases)
  show ?thesis
    using u md5_pad_bytes [OF pos] k pl by blast
qed

text \<open>
  Claim C6. When fewer than \<open>2^32\<close> bytes in total have been fed, in whatever chunks,
  the counter pair holds the total, \<open>n1 * 2^32 + n0 = L\<close> with \<open>n0\<close> in \<open>[0, 2^32)\<close>,
  and the last eight bytes of the padding buffer are \<open>8 * L\<close> as a 64-bit number, lowest
  byte first: the low four are \<open>8 * n0\<close> modulo \<open>2^32\<close>, the high four hold the top
  three bits of \<open>n0\<close>.
\<close>

theorem length_encoding:
  assumes "int (length (concat chunks)) < 2 ^ 32"
  shows "\<exists>state block pos n0 n1 pad m0 m1.
      update_all (init_state, replicate 64 0, 0, 0, 0) chunks = Inr (state, block, pos, n0, n1)
    \<and> n1 * 2 ^ 32 + n0 = int (length (concat chunks)) \<and> 0 \<le> n0 \<and> n0 < 2 ^ 32
    \<and> md5_pad pos n0 n1 = Inr (pad, m0, m1)
    \<and> 8 \<le> length pad
    \<and> le_decode (drop (length pad - 8) pad) = 8 * int (length (concat chunks))
    \<and> le_decode (take 4 (drop (length pad - 8) pad)) = (8 * n0) mod 2 ^ 32
    \<and> le_decode (drop (length pad - 4) pad) = n0 div 2 ^ 29"
proof -
  define L where "L = int (length (concat chunks))"
  define r where "r = blocks_fold hash init_state (concat chunks)"
  have L: "0 \<le> L" "L < 2 ^ 32" using assms by (simp_all add: L_def)
  obtain block' where
    u: "update_all (init_state, replicate 64 0, 0, 0, 0) chunks
         = Inr (fst r, block', int (length (snd r)), L mod 2 ^ 32, L div 2 ^ 32)"
    using update_all_blocks [where pos = 0 and block = "replicate 64 0" and state = init_state
        and chunks = chunks and ?n0.0 = 0 and ?n1.0 = 0] assms
    unfolding r_def L_def by auto
  have cnt: "L mod 2 ^ 32 = L" "L div 2 ^ 32 = 0" using L by simp_all
  have pos: "0 \<le> int (length (snd r))" "int (length (snd r)) < 64"
    by (simp_all add: r_def blocks_fold_length)
  define k where "k = nat (pad_length (int (length (snd r)))) - 9"
  define m0 where "m0 = js_shl L 3"
  define m1 where "m1 = js_or (js_shl 0 3) (js_ushr L 29)"
  have p: "md5_pad (int (length (snd r))) L 0 = Inr (pad_bytes k m0 m1, m0, m1)"
    using md5_pad_bytes [OF pos] by (simp add: k_def m0_def m1_def)
  have lo: "m0 mod 2 ^ 32 = (8 * L) mod 2 ^ 32"
    using js_shl_3_mod [of L] by (simp add: m0_def mult.commute)
  have hi: "m1 mod 2 ^ 32 = L div 2 ^ 29"
    unfolding m1_def using L by (rule high_word_small)
  have all: "le_decode (drop (length (pad_bytes k m0 m1) - 8) (pad_bytes k m0 m1)) = 8 * L"
  proof -
    have "le_decode (drop (length (pad_bytes k m0 m1) - 8) (pad_bytes k m0 m1))
        = m0 mod 2 ^ 32 + 2 ^ 32 * (m1 mod 2 ^ 32)"
      by (rule le_decode_pad)
    also have "\<dots> = (L * 8) mod 2 ^ 32 + 2 ^ 32 * (L div 2 ^ 29)"
      by (simp only: lo hi mult.commute [of 8 L])
    also have "\<dots> = 8 * L"
      by (rule times8_split)
    finally show ?thesis .
  qed
  have "8 \<le> length (pad_bytes k m0 m1)" by (simp add: pad_bytes_def)
  then show ?thesis
    using u p all le_decode_pad_low [of k m0 m1] le_decode_pad_high [of k m0 m1] L
    unfolding cnt lo hi L_def [symmetric] by (intro exI conjI) simp_all
qed

theorem length_encoding_witness:
  "int (length (concat [[97], [98, 99 :: byte]])) < 2 ^ 32
   \<and> (\<exists>state block pos n0 n1 pad m0 m1.
      update_all (init_state, replicate 64 0, 0, 0, 0) [[97], [98, 99]]
        = Inr (state, block, pos, n0, n1)
    \<and> n1 * 2 ^ 32 + n0 = int (length (concat [[97], [98, 99 :: byte]]))
    \<and> 0 \<le> n0 \<and> n0 < 2 ^ 32
    \<and> md5_pad pos n0 n1 = Inr (pad, m0, m1)
    \<and> 8 \<le> length pad
    \<and> le_decode (drop (length pad - 8) pad) = 8 * int (length (concat [[97], [98, 99 :: byte]]))
    \<and> le_decode (take 4 (drop (length pad - 8) pad)) = (8 * n0) mod 2 ^ 32
    \<and> le_decode (drop (length pad - 4) pad) = n0 div 2 ^ 29)"
  using length_encoding [of "[[97], [98, 99]]"] by simp

section \<open>The digest\<close>

text \<open>
  Claim C9. For every input, of any length, \<open>md5\<close> returns a digest (no step raises),
  and the digest has exactly 16 bytes.
\<close>

theorem md5_returns_16_bytes: "\<exists>d. md5 msg = Inr d \<and> length d = 16"
  unfolding md5_blocks by (rule digest_length)

section \<open>Known answers\<close>

lemma replicate_numeral_unfold:
  "replicate (numeral k) x = x # replicate (pred_numeral k) x"
  by (simp add: numeral_eq_Suc)


lemma empty_bytes: "bytes_of '''' = []"
  by (simp add: bytes_of_def replicate_numeral_unfold)

lemma empty_padded:
  "bytes_of '''' @ padding (int (length (bytes_of '''') mod 64))
      (fst (addLength 0 0 (int (length (bytes_of ''''))))) (snd (addLength 0 0 (int (length (bytes_of '''')))))
   = [128, 0, 0, 0, 0, 0, 0, 0, 0, 0, 0, 0, 0, 0, 0, 0, 0, 0, 0, 0, 0, 0, 0, 0, 0, 0, 0, 0, 0, 0, 0, 0, 0, 0, 0, 0, 0, 0, 0, 0, 0, 0, 0, 0, 0, 0, 0, 0, 0, 0, 0, 0, 0, 0, 0, 0, 0, 0, 0, 0, 0, 0, 0, 0]"
  unfolding empty_bytes
  by (simp add: padding_def pad_bytes_def pad_length_def BLOCK_SIZE_def addLength_def Let_def
        js_and_def js_or_def js_shl_def js_ushr_def replicate_numeral_unfold)

lemma empty_block1:
  "hash (1732584193, 4023233417, 2562383102, 271733878)
     [128, 0, 0, 0, 0, 0, 0, 0, 0, 0, 0, 0, 0, 0, 0, 0, 0, 0, 0, 0, 0, 0, 0, 0, 0, 0, 0, 0, 0, 0, 0, 0, 0, 0, 0, 0, 0, 0, 0, 0, 0, 0, 0, 0, 0, 0, 0, 0, 0, 0, 0, 0, 0, 0, 0, 0, 0, 0, 0, 0, 0, 0, 0, 0]
   = (3649838548, 78774415, 2550759657, 2118318316)"
  by (simp add: hash_tuple Let_def blk_def ta_get_def rol32_def js_and_def js_or_def js_xor_def js_not_def js_shl_def js_ushr_def cong: let_weak_cong)

lemma empty_fold:
  "blocks_fold hash init_state
     [128, 0, 0, 0, 0, 0, 0, 0, 0, 0, 0, 0, 0, 0, 0, 0, 0, 0, 0, 0, 0, 0, 0, 0, 0, 0, 0, 0, 0, 0, 0, 0, 0, 0, 0, 0, 0, 0, 0, 0, 0, 0, 0, 0, 0, 0, 0, 0, 0, 0, 0, 0, 0, 0, 0, 0, 0, 0, 0, 0, 0, 0, 0, 0]
   = ((3649838548, 78774415, 2550759657, 2118318316), [])"
  by (simp add: blocks_fold.simps init_state_def empty_block1)

lemma empty_digest: "md5 (bytes_of '''') = Inr [212, 29, 140, 217, 143, 0, 178, 4, 233, 128, 9, 152, 236, 248, 66, 126]"
  unfolding md5_blocks empty_padded empty_fold
  by (simp add: digest_def ta_new_def setUint32_def Let_def js_ushr_def)

lemma empty_hex: "md5_hex (bytes_of '''') = Inr ''d41d8cd98f00b204e9800998ecf8427e''"
  unfolding md5_hex_def empty_digest
  by (simp add: encodeHex_def hex_digit_def)

lemma abc_bytes: "bytes_of ''abc'' = [97, 98, 99]"
  by (simp add: bytes_of_def replicate_numeral_unfold)

lemma abc_padded:
  "bytes_of ''abc'' @ padding (int (length (bytes_of ''abc'') mod 64))
      (fst (addLength 0 0 (int (length (bytes_of ''abc''))))) (snd (addLength 0 0 (int (length (bytes_of ''abc'')))))
   = [97, 98, 99, 128, 0, 0, 0, 0, 0, 0, 0, 0, 0, 0, 0, 0, 0, 0, 0, 0, 0, 0, 0, 0, 0, 0, 0, 0, 0, 0, 0, 0, 0, 0, 0, 0, 0, 0, 0, 0, 0, 0, 0, 0, 0, 0, 0, 0, 0, 0, 0, 0, 0, 0, 0, 0, 24, 0, 0, 0, 0, 0, 0, 0]"
  unfolding abc_bytes
  by (simp add: padding_def pad_bytes_def pad_length_def BLOCK_SIZE_def addLength_def Let_def
        js_and_def js_or_def js_shl_def js_ushr_def replicate_numeral_unfold)

lemma abc_block1:
  "hash (1732584193, 4023233417, 2562383102, 271733878)
     [97, 98, 99, 128, 0, 0, 0, 0, 0, 0, 0, 0, 0, 0, 0, 0, 0, 0, 0, 0, 0, 0, 0, 0, 0, 0, 0, 0, 0, 0, 0, 0, 0, 0, 0, 0, 0, 0, 0, 0, 0, 0, 0, 0, 0, 0, 0, 0, 0, 0, 0, 0, 0, 0, 0, 0, 24, 0, 0, 0, 0, 0, 0, 0]
   = (2555380112, 2958021180, 2101319382, 1920983336)"
  by (simp add: hash_tuple Let_def blk_def ta_get_def rol32_def js_and_def js_or_def js_xor_def js_not_def js_shl_def js_ushr_def cong: let_weak_cong)

lemma abc_fold:
  "blocks_fold hash init_state
     [97, 98, 99, 128, 0, 0, 0, 0, 0, 0, 0, 0, 0, 0, 0, 0, 0, 0, 0, 0, 0, 0, 0, 0, 0, 0, 0, 0, 0, 0, 0, 0, 0, 0, 0, 0, 0, 0, 0, 0, 0, 0, 0, 0, 0, 0, 0, 0, 0, 0, 0, 0, 0, 0, 0, 0, 24, 0, 0, 0, 0, 0, 0, 0]
   = ((2555380112, 2958021180, 2101319382, 1920983336), [])"
  by (simp add: blocks_fold.simps init_state_def abc_block1)

lemma abc_digest: "md5 (bytes_of ''abc'') = Inr [144, 1, 80, 152, 60, 210, 79, 176, 214, 150, 63, 125, 40, 225, 127, 114]"
  unfolding md5_blocks abc_padded abc_fold
  by (simp add: digest_def ta_new_def setUint32_def Let_def js_ushr_def)

lemma abc_hex: "md5_hex (bytes_of ''abc'') = Inr ''900150983cd24fb0d6963f7d28e17f72''"
  unfolding md5_hex_def abc_digest
  by (simp add: encodeHex_def hex_digit_def)

lemma fox_bytes: "bytes_of ''The quick brown fox jumps over the lazy dog'' = [84, 104, 101, 32, 113, 117, 105, 99, 107, 32, 98, 114, 111, 119, 110, 32, 102, 111, 120, 32, 106, 117, 109, 112, 115, 32, 111, 118, 101, 114, 32, 116, 104, 101, 32, 108, 97, 122, 121, 32, 100, 111, 103]"
  by (simp add: bytes_of_def replicate_numeral_unfold)

lemma fox_padded:
  "bytes_of ''The quick brown fox jumps over the lazy dog'' @ padding (int (length (bytes_of ''The quick brown fox jumps over the lazy dog'') mod 64))
      (fst (addLength 0 0 (int (length (bytes_of ''The quick brown fox jumps over the lazy dog''))))) (snd (addLength 0 0 (int (length (bytes_of ''The quick brown fox jumps over the lazy dog'')))))
   = [84, 104, 101, 32, 113, 117, 105, 99, 107, 32, 98, 114, 111, 119, 110, 32, 102, 111, 120, 32, 106, 117, 109, 112, 115, 32, 111, 118, 101, 114, 32, 116, 104, 101, 32, 108, 97, 122, 121, 32, 100, 111, 103, 128, 0, 0, 0, 0, 0, 0, 0, 0, 0, 0, 0, 0, 88, 1, 0, 0, 0, 0, 0, 0]"
  unfolding fox_bytes
  by (simp add: padding_def pad_bytes_def pad_length_def BLOCK_SIZE_def addLength_def Let_def
        js_and_def js_or_def js_shl_def js_ushr_def replicate_numeral_unfold)

lemma fox_block1:
  "hash (1732584193, 4023233417, 2562383102, 271733878)
     [84, 104, 101, 32, 113, 117, 105, 99, 107, 32, 98, 114, 111, 119, 110, 32, 102, 111, 120, 32, 106, 117, 109, 112, 115, 32, 111, 118, 101, 114, 32, 116, 104, 101, 32, 108, 97, 122, 121, 32, 100, 111, 103, 128, 0, 0, 0, 0, 0, 0, 0, 0, 0, 0, 0, 0, 88, 1, 0, 0, 0, 0, 0, 0]
   = (2642219166, 2192976695, 891148395, 3592004674)"
  by (simp add: hash_tuple Let_def blk_def ta_get_def rol32_def js_and_def js_or_def js_xor_def js_not_def js_shl_def js_ushr_def cong: let_weak_cong)

lemma fox_fold:
  "blocks_fold hash init_state
     [84, 104, 101, 32, 113, 117, 105, 99, 107, 32, 98, 114, 111, 119, 110, 32, 102, 111, 120, 32, 106, 117, 109, 112, 115, 32, 111, 118, 101, 114, 32, 116, 104, 101, 32, 108, 97, 122, 121, 32, 100, 111, 103, 128, 0, 0, 0, 0, 0, 0, 0, 0, 0, 0, 0, 0, 88, 1, 0, 0, 0, 0, 0, 0]
   = ((2642219166, 2192976695, 891148395, 3592004674), [])"
  by (simp add: blocks_fold.simps init_state_def fox_block1)

lemma fox_digest: "md5 (bytes_of ''The quick brown fox jumps over the lazy dog'') = Inr [158, 16, 125, 157, 55, 43, 182, 130, 107, 216, 29, 53, 66, 164, 25, 214]"
  unfolding md5_blocks fox_padded fox_fold
  by (simp add: digest_def ta_new_def setUint32_def Let_def js_ushr_def)

lemma fox_hex: "md5_hex (bytes_of ''The quick brown fox jumps over the lazy dog'') = Inr ''9e107d9d372bb6826bd81d3542a419d6''"
  unfolding md5_hex_def fox_digest
  by (simp add: encodeHex_def hex_digit_def)

text \<open>
  Claim C1. The digests of the empty input, of \<open>abc\<close> and of the sentence about the fox,
  in hexadecimal, are the expected strings of the tests.
\<close>

theorem md5_known_answers:
  "md5_hex (bytes_of '''') = Inr ''d41d8cd98f00b204e9800998ecf8427e''
 \<and> md5_hex (bytes_of ''abc'') = Inr ''900150983cd24fb0d6963f7d28e17f72''
 \<and> md5_hex (bytes_of ''The quick brown fox jumps over the lazy dog'') = Inr ''9e107d9d372bb6826bd81d3542a419d6''"
  by (intro conjI empty_hex abc_hex fox_hex)

lemma a56_bytes: "replicate 56 97 = [97, 97, 97, 97, 97, 97, 97, 97, 97, 97, 97, 97, 97, 97, 97, 97, 97, 97, 97, 97, 97, 97, 97, 97, 97, 97, 97, 97, 97, 97, 97, 97, 97, 97, 97, 97, 97, 97, 97, 97, 97, 97, 97, 97, 97, 97, 97, 97, 97, 97, 97, 97, 97, 97, 97, 97]"
  by (simp add: bytes_of_def replicate_numeral_unfold)

lemma a56_padded:
  "replicate 56 97 @ padding (int (length (replicate 56 97) mod 64))
      (fst (addLength 0 0 (int (length (replicate 56 97))))) (snd (addLength 0 0 (int (length (replicate 56 97)))))
   = [97, 97, 97, 97, 97, 97, 97, 97, 97, 97, 97, 97, 97, 97, 97, 97, 97, 97, 97, 97, 97, 97, 97, 97, 97, 97, 97, 97, 97, 97, 97, 97, 97, 97, 97, 97, 97, 97, 97, 97, 97, 97, 97, 97, 97, 97, 97, 97, 97, 97, 97, 97, 97, 97, 97, 97, 128, 0, 0, 0, 0, 0, 0, 0, 0, 0, 0, 0, 0, 0, 0, 0, 0, 0, 0, 0, 0, 0, 0, 0, 0, 0, 0, 0, 0, 0, 0, 0, 0, 0, 0, 0, 0, 0, 0, 0, 0, 0, 0, 0, 0, 0, 0, 0, 0, 0, 0, 0, 0, 0, 0, 0, 0, 0, 0, 0, 0, 0, 0, 0, 192, 1, 0, 0, 0, 0, 0, 0]"
  unfolding a56_bytes
  by (simp add: padding_def pad_bytes_def pad_length_def BLOCK_SIZE_def addLength_def Let_def
        js_and_def js_or_def js_shl_def js_ushr_def replicate_numeral_unfold)

lemma a56_block1:
  "hash (1732584193, 4023233417, 2562383102, 271733878)
     [97, 97, 97, 97, 97, 97, 97, 97, 97, 97, 97, 97, 97, 97, 97, 97, 97, 97, 97, 97, 97, 97, 97, 97, 97, 97, 97, 97, 97, 97, 97, 97, 97, 97, 97, 97, 97, 97, 97, 97, 97, 97, 97, 97, 97, 97, 97, 97, 97, 97, 97, 97, 97, 97, 97, 97, 128, 0, 0, 0, 0, 0, 0, 0]
   = (1006056287, 304929640, 2974709910, 4098186901)"
  by (simp add: hash_tuple Let_def blk_def ta_get_def rol32_def js_and_def js_or_def js_xor_def js_not_def js_shl_def js_ushr_def cong: let_weak_cong)

lemma a56_block2:
  "hash (1006056287, 304929640, 2974709910, 4098186901)
     [0, 0, 0, 0, 0, 0, 0, 0, 0, 0, 0, 0, 0, 0, 0, 0, 0, 0, 0, 0, 0, 0, 0, 0, 0, 0, 0, 0, 0, 0, 0, 0, 0, 0, 0, 0, 0, 0, 0, 0, 0, 0, 0, 0, 0, 0, 0, 0, 0, 0, 0, 0, 0, 0, 0, 0, 192, 1, 0, 0, 0, 0, 0, 0]
   = (3347713083, 2955474947, 1880714316, 410177798)"
  by (simp add: hash_tuple Let_def blk_def ta_get_def rol32_def js_and_def js_or_def js_xor_def js_not_def js_shl_def js_ushr_def cong: let_weak_cong)

lemma a56_fold:
  "blocks_fold hash init_state
     [97, 97, 97, 97, 97, 97, 97, 97, 97, 97, 97, 97, 97, 97, 97, 97, 97, 97, 97, 97, 97, 97, 97, 97, 97, 97, 97, 97, 97, 97, 97, 97, 97, 97, 97, 97, 97, 97, 97, 97, 97, 97, 97, 97, 97, 97, 97, 97, 97, 97, 97, 97, 97, 97, 97, 97, 128, 0, 0, 0, 0, 0, 0, 0, 0, 0, 0, 0, 0, 0, 0, 0, 0, 0, 0, 0, 0, 0, 0, 0, 0, 0, 0, 0, 0, 0, 0, 0, 0, 0, 0, 0, 0, 0, 0, 0, 0, 0, 0, 0, 0, 0, 0, 0, 0, 0, 0, 0, 0, 0, 0, 0, 0, 0, 0, 0, 0, 0, 0, 0, 192, 1, 0, 0, 0, 0, 0, 0]
   = ((3347713083, 2955474947, 1880714316, 410177798), [])"
  by (simp add: blocks_fold.simps init_state_def a56_block1 a56_block2)

lemma a56_digest: "md5 (replicate 56 97) = Inr [59, 12, 138, 199, 3, 248, 40, 176, 76, 108, 25, 112, 6, 209, 114, 24]"
  unfolding md5_blocks a56_padded a56_fold
  by (simp add: digest_def ta_new_def setUint32_def Let_def js_ushr_def)

lemma a56_hex: "md5_hex (replicate 56 97) = Inr ''3b0c8ac703f828b04c6c197006d17218''"
  unfolding md5_hex_def a56_digest
  by (simp add: encodeHex_def hex_digit_def)

lemma a64_bytes: "replicate 64 97 = [97, 97, 97, 97, 97, 97, 97, 97, 97, 97, 97, 97, 97, 97, 97, 97, 97, 97, 97, 97, 97, 97, 97, 97, 97, 97, 97, 97, 97, 97, 97, 97, 97, 97, 97, 97, 97, 97, 97, 97, 97, 97, 97, 97, 97, 97, 97, 97, 97, 97, 97, 97, 97, 97, 97, 97, 97, 97, 97, 97, 97, 97, 97, 97]"
  by (simp add: bytes_of_def replicate_numeral_unfold)

lemma a64_padded:
  "replicate 64 97 @ padding (int (length (replicate 64 97) mod 64))
      (fst (addLength 0 0 (int (length (replicate 64 97))))) (snd (addLength 0 0 (int (length (replicate 64 97)))))
   = [97, 97, 97, 97, 97, 97, 97, 97, 97, 97, 97, 97, 97, 97, 97, 97, 97, 97, 97, 97, 97, 97, 97, 97, 97, 97, 97, 97, 97, 97, 97, 97, 97, 97, 97, 97, 97, 97, 97, 97, 97, 97, 97, 97, 97, 97, 97, 97, 97, 97, 97, 97, 97, 97, 97, 97, 97, 97, 97, 97, 97, 97, 97, 97, 128, 0, 0, 0, 0, 0, 0, 0, 0, 0, 0, 0, 0, 0, 0, 0, 0, 0, 0, 0, 0, 0, 0, 0, 0, 0, 0, 0, 0, 0, 0, 0, 0, 0, 0, 0, 0, 0, 0, 0, 0, 0, 0, 0, 0, 0, 0, 0, 0, 0, 0, 0, 0, 0, 0, 0, 0, 2, 0, 0, 0, 0, 0, 0]"
  unfolding a64_bytes
  by (simp add: padding_def pad_bytes_def pad_length_def BLOCK_SIZE_def addLength_def Let_def
        js_and_def js_or_def js_shl_def js_ushr_def replicate_numeral_unfold)

lemma a64_block1:
  "hash (1732584193, 4023233417, 2562383102, 271733878)
     [97, 97, 97, 97, 97, 97, 97, 97, 97, 97, 97, 97, 97, 97, 97, 97, 97, 97, 97, 97, 97, 97, 97, 97, 97, 97, 97, 97, 97, 97, 97, 97, 97, 97, 97, 97, 97, 97, 97, 97, 97, 97, 97, 97, 97, 97, 97, 97, 97, 97, 97, 97, 97, 97, 97, 97, 97, 97, 97, 97, 97, 97, 97, 97]
   = (2312437590, 308074850, 1774902835, 3400485)"
  by (simp add: hash_tuple Let_def blk_def ta_get_def rol32_def js_and_def js_or_def js_xor_def js_not_def js_shl_def js_ushr_def cong: let_weak_cong)

lemma a64_block2:
  "hash (2312437590, 308074850, 1774902835, 3400485)
     [128, 0, 0, 0, 0, 0, 0, 0, 0, 0, 0, 0, 0, 0, 0, 0, 0, 0, 0, 0, 0, 0, 0, 0, 0, 0, 0, 0, 0, 0, 0, 0, 0, 0, 0, 0, 0, 0, 0, 0, 0, 0, 0, 0, 0, 0, 0, 0, 0, 0, 0, 0, 0, 0, 0, 0, 0, 2, 0, 0, 0, 0, 0, 0]
   = (3561113601, 1232188800, 1661160026, 1735606137)"
  by (simp add: hash_tuple Let_def blk_def ta_get_def rol32_def js_and_def js_or_def js_xor_def js_not_def js_shl_def js_ushr_def cong: let_weak_cong)

lemma a64_fold:
  "blocks_fold hash init_state
     [97, 97, 97, 97, 97, 97, 97, 97, 97, 97, 97, 97, 97, 97, 97, 97, 97, 97, 97, 97, 97, 97, 97, 97, 97, 97, 97, 97, 97, 97, 97, 97, 97, 97, 97, 97, 97, 97, 97, 97, 97, 97, 97, 97, 97, 97, 97, 97, 97, 97, 97, 97, 97, 97, 97, 97, 97, 97, 97, 97, 97, 97, 97, 97, 128, 0, 0, 0, 0, 0, 0, 0, 0, 0, 0, 0, 0, 0, 0, 0, 0, 0, 0, 0, 0, 0, 0, 0, 0, 0, 0, 0, 0, 0, 0, 0, 0, 0, 0, 0, 0, 0, 0, 0, 0, 0, 0, 0, 0, 0, 0, 0, 0, 0, 0, 0, 0, 0, 0, 0, 0, 2, 0, 0, 0, 0, 0, 0]
   = ((3561113601, 1232188800, 1661160026, 1735606137), [])"
  by (simp add: blocks_fold.simps init_state_def a64_block1 a64_block2)

lemma a64_digest: "md5 (replicate 64 97) = Inr [1, 72, 66, 212, 128, 181, 113, 73, 90, 74, 3, 99, 121, 63, 115, 103]"
  unfolding md5_blocks a64_padded a64_fold
  by (simp add: digest_def ta_new_def setUint32_def Let_def js_ushr_def)

lemma a64_hex: "md5_hex (replicate 64 97) = Inr ''014842d480b571495a4a0363793f7367''"
  unfolding md5_hex_def a64_digest
  by (simp add: encodeHex_def hex_digit_def)

lemma a66_bytes: "replicate 66 97 = [97, 97, 97, 97, 97, 97, 97, 97, 97, 97, 97, 97, 97, 97, 97, 97, 97, 97, 97, 97, 97, 97, 97, 97, 97, 97, 97, 97, 97, 97, 97, 97, 97, 97, 97, 97, 97, 97, 97, 97, 97, 97, 97, 97, 97, 97, 97, 97, 97, 97, 97, 97, 97, 97, 97, 97, 97, 97, 97, 97, 97, 97, 97, 97, 97, 97]"
  by (simp add: bytes_of_def replicate_numeral_unfold)

lemma a66_padded:
  "replicate 66 97 @ padding (int (length (replicate 66 97) mod 64))
      (fst (addLength 0 0 (int (length (replicate 66 97))))) (snd (addLength 0 0 (int (length (replicate 66 97)))))
   = [97, 97, 97, 97, 97, 97, 97, 97, 97, 97, 97, 97, 97, 97, 97, 97, 97, 97, 97, 97, 97, 97, 97, 97, 97, 97, 97, 97, 97, 97, 97, 97, 97, 97, 97, 97, 97, 97, 97, 97, 97, 97, 97, 97, 97, 97, 97, 97, 97, 97, 97, 97, 97, 97, 97, 97, 97, 97, 97, 97, 97, 97, 97, 97, 97, 97, 128, 0, 0, 0, 0, 0, 0, 0, 0, 0, 0, 0, 0, 0, 0, 0, 0, 0, 0, 0, 0, 0, 0, 0, 0, 0, 0, 0, 0, 0, 0, 0, 0, 0, 0, 0, 0, 0, 0, 0, 0, 0, 0, 0, 0, 0, 0, 0, 0, 0, 0, 0, 0, 0, 16, 2, 0, 0, 0, 0, 0, 0]"
  unfolding a66_bytes
  by (simp add: padding_def pad_bytes_def pad_length_def BLOCK_SIZE_def addLength_def Let_def
        js_and_def js_or_def js_shl_def js_ushr_def replicate_numeral_unfold)

lemma a66_block1:
  "hash (1732584193, 4023233417, 2562383102, 271733878)
     [97, 97, 97, 97, 97, 97, 97, 97, 97, 97, 97, 97, 97, 97, 97, 97, 97, 97, 97, 97, 97, 97, 97, 97, 97, 97, 97, 97, 97, 97, 97, 97, 97, 97, 97, 97, 97, 97, 97, 97, 97, 97, 97, 97, 97, 97, 97, 97, 97, 97, 97, 97, 97, 97, 97, 97, 97, 97, 97, 97, 97, 97, 97, 97]
   = (2312437590, 308074850, 1774902835, 3400485)"
  by (simp add: hash_tuple Let_def blk_def ta_get_def rol32_def js_and_def js_or_def js_xor_def js_not_def js_shl_def js_ushr_def cong: let_weak_cong)

lemma a66_block2:
  "hash (2312437590, 308074850, 1774902835, 3400485)
     [97, 97, 128, 0, 0, 0, 0, 0, 0, 0, 0, 0, 0, 0, 0, 0, 0, 0, 0, 0, 0, 0, 0, 0, 0, 0, 0, 0, 0, 0, 0, 0, 0, 0, 0, 0, 0, 0, 0, 0, 0, 0, 0, 0, 0, 0, 0, 0, 0, 0, 0, 0, 0, 0, 0, 0, 16, 2, 0, 0, 0, 0, 0, 0]
   = (2128213470, 2669797633, 2794323122, 800773828)"
  by (simp add: hash_tuple Let_def blk_def ta_get_def rol32_def js_and_def js_or_def js_xor_def js_not_def js_shl_def js_ushr_def cong: let_weak_cong)

lemma a66_fold:
  "blocks_fold hash init_state
     [97, 97, 97, 97, 97, 97, 97, 97, 97, 97, 97, 97, 97, 97, 97, 97, 97, 97, 97, 97, 97, 97, 97, 97, 97, 97, 97, 97, 97, 97, 97, 97, 97, 97, 97, 97, 97, 97, 97, 97, 97, 97, 97, 97, 97, 97, 97, 97, 97, 97, 97, 97, 97, 97, 97, 97, 97, 97, 97, 97, 97, 97, 97, 97, 97, 97, 128, 0, 0, 0, 0, 0, 0, 0, 0, 0, 0, 0, 0, 0, 0, 0, 0, 0, 0, 0, 0, 0, 0, 0, 0, 0, 0, 0, 0, 0, 0, 0, 0, 0, 0, 0, 0, 0, 0, 0, 0, 0, 0, 0, 0, 0, 0, 0, 0, 0, 0, 0, 0, 0, 16, 2, 0, 0, 0, 0, 0, 0]
   = ((2128213470, 2669797633, 2794323122, 800773828), [])"
  by (simp add: blocks_fold.simps init_state_def a66_block1 a66_block2)

lemma a66_digest: "md5 (replicate 66 97) = Inr [222, 245, 217, 126, 1, 225, 33, 159, 178, 252, 141, 166, 196, 214, 186, 47]"
  unfolding md5_blocks a66_padded a66_fold
  by (simp add: digest_def ta_new_def setUint32_def Let_def js_ushr_def)

lemma a66_hex: "md5_hex (replicate 66 97) = Inr ''def5d97e01e1219fb2fc8da6c4d6ba2f''"
  unfolding md5_hex_def a66_digest
  by (simp add: encodeHex_def hex_digit_def)

end
